theory Spec2Isabelle
  imports Main
begin

section \<open>Strings\<close>

text \<open>
  A JavaScript string is a sequence of UTF-16 code units. Texts that the server reads
  (sheet cells, request fields, replies of the extraction service) are modelled as
  \<^typ>\<open>string\<close>, one \<^typ>\<open>char\<close> per code unit, so the model covers the texts whose
  code units are below 256. The string values inside parsed JSON keep their code units
  as natural numbers, because an escape \<open>\uXXXX\<close> can denote any code unit.
\<close>

definition str :: "string \<Rightarrow> nat list" where
  "str s = map of_char s"

text \<open>\<open>String.prototype.toLowerCase\<close> on code units below 256: A-Z and the
  Latin-1 capitals (all of 0xC0-0xDE but the multiplication sign) move up by 32.\<close>

definition lower_char :: "char \<Rightarrow> char" where
  "lower_char c =
     (let n = (of_char c :: nat)
      in if (65 \<le> n \<and> n \<le> 90) \<or> (192 \<le> n \<and> n \<le> 222 \<and> n \<noteq> 215)
         then char_of (n + 32) else c)"

definition toLowerCase :: "string \<Rightarrow> string" where
  "toLowerCase s = map lower_char s"

text \<open>\<open>String.prototype.includes\<close>: the argument occurs as a contiguous run.\<close>

fun includes_str :: "string \<Rightarrow> string \<Rightarrow> bool" where
  "includes_str [] sub = (sub = [])"
| "includes_str (c # cs) sub = (take (length sub) (c # cs) = sub \<or> includes_str cs sub)"

text \<open>\<open>String.prototype.trim\<close>: white space and line terminators below 256 are
  TAB, LF, VT, FF, CR, SP and NBSP.\<close>

definition is_js_space :: "char \<Rightarrow> bool" where
  "is_js_space c = ((of_char c :: nat) \<in> {9, 10, 11, 12, 13, 32, 160})"

definition trim :: "string \<Rightarrow> string" where
  "trim s = rev (dropWhile is_js_space (rev (dropWhile is_js_space s)))"

text \<open>Decimal rendering of a count in a template literal.\<close>

fun digits_of :: "nat \<Rightarrow> nat \<Rightarrow> string" where
  "digits_of 0 n = []"
| "digits_of (Suc f) n =
     (if n < 10 then [char_of (48 + n)] else digits_of f (n div 10) @ [char_of (48 + n mod 10)])"

definition show_nat :: "nat \<Rightarrow> string" where
  "show_nat n = digits_of (Suc n) n"


section \<open>The regular expression of the extraction client\<close>

text \<open>
  \<open>text.match(/\{[\s\S]*\}/)\<close>, line 157. The class \<open>[\s\S]\<close> accepts every code
  unit. \<open>greedy_to_close\<close> is \<open>[\s\S]*\}\<close> at one position: the star first takes the
  next unit and tries the rest, and only when that fails does it stop so that \<open>\}\<close>
  has to match the unit itself. \<open>match_braces\<close> tries the start positions from the
  left, as the matcher does, and returns element 0 of the match.
\<close>

fun greedy_to_close :: "string \<Rightarrow> string option" where
  "greedy_to_close [] = None"
| "greedy_to_close (c # cs) =
     (case greedy_to_close cs of
        Some m \<Rightarrow> Some (c # m)
      | None \<Rightarrow> if c = CHR ''}'' then Some [c] else None)"

fun match_braces :: "string \<Rightarrow> string option" where
  "match_braces [] = None"
| "match_braces (c # cs) =
     (case (if c = CHR ''{'' then greedy_to_close cs else None) of
        Some m \<Rightarrow> Some (c # m)
      | None \<Rightarrow> match_braces cs)"


section \<open>JSON.parse\<close>

text \<open>
  The values \<open>JSON.parse\<close> builds. A number is kept exactly, as mantissa and
  decimal exponent; an object keeps its members in source order (a repeated key is
  resolved at lookup, where the last member wins).
\<close>

datatype json =
    JNull
  | JBool bool
  | JNum int int
  | JStr "nat list"
  | JArr "json list"
  | JObj "(nat list \<times> json) list"

datatype 'a parsed = Parsed 'a | Malformed | OutOfFuel

definition is_json_ws :: "char \<Rightarrow> bool" where
  "is_json_ws c = ((of_char c :: nat) \<in> {9, 10, 13, 32})"

definition skip_ws :: "string \<Rightarrow> string" where
  "skip_ws s = dropWhile is_json_ws s"

definition is_digit :: "char \<Rightarrow> bool" where
  "is_digit c = (48 \<le> (of_char c :: nat) \<and> (of_char c :: nat) \<le> 57)"

definition digits_val :: "string \<Rightarrow> nat" where
  "digits_val ds = foldl (\<lambda>a c. 10 * a + (of_char c - 48)) 0 ds"

definition hex_val :: "char \<Rightarrow> nat option" where
  "hex_val c =
     (let n = (of_char c :: nat)
      in if 48 \<le> n \<and> n \<le> 57 then Some (n - 48)
         else if 65 \<le> n \<and> n \<le> 70 then Some (n - 55)
         else if 97 \<le> n \<and> n \<le> 102 then Some (n - 87)
         else None)"

definition hex4 :: "string \<Rightarrow> nat option" where
  "hex4 s =
     (if length s = 4 \<and> list_all (\<lambda>c. hex_val c \<noteq> None) s
      then Some (foldl (\<lambda>a c. 16 * a + the (hex_val c)) 0 s)
      else None)"

text \<open>The one-character escapes of a JSON string.\<close>

definition escape_unit :: "char \<Rightarrow> nat option" where
  "escape_unit e =
     (if e = CHR 0x22 then Some 34
      else if e = CHR 0x5C then Some 92
      else if e = CHR ''/'' then Some 47
      else if e = CHR ''b'' then Some 8
      else if e = CHR ''f'' then Some 12
      else if e = CHR ''n'' then Some 10
      else if e = CHR ''r'' then Some 13
      else if e = CHR ''t'' then Some 9
      else None)"

text \<open>The characters of a string after its opening quote, up to the closing one. A
  raw control character (below 0x20) is not allowed.\<close>

fun json_chars :: "string \<Rightarrow> (nat list \<times> string) option" where
  "json_chars [] = None"
| "json_chars (c # cs) =
     (if c = CHR 0x22 then Some ([], cs)
      else if c = CHR 0x5C then
        (case cs of
           [] \<Rightarrow> None
         | e # r \<Rightarrow>
             if e = CHR ''u'' then
               (case hex4 (take 4 r) of
                  None \<Rightarrow> None
                | Some u \<Rightarrow> map_option (\<lambda>(us, t). (u # us, t)) (json_chars (drop 4 r)))
             else
               (case escape_unit e of
                  None \<Rightarrow> None
                | Some u \<Rightarrow> map_option (\<lambda>(us, t). (u # us, t)) (json_chars r)))
      else if (of_char c :: nat) < 32 then None
      else map_option (\<lambda>(us, t). (of_char c # us, t)) (json_chars cs))"

text \<open>A number: \<open>-? (0 | [1-9][0-9]*) (. [0-9]+)? ([eE] [+-]? [0-9]+)?\<close>. A point or
  an exponent mark without digits, or a digit after a leading zero, cannot be followed
  by anything that makes the text well formed, so the number is refused there.\<close>

definition json_number :: "string \<Rightarrow> (json \<times> string) option" where
  "json_number s =
     (let neg = (take 1 s = ''-'');
          s1 = (if neg then drop 1 s else s);
          ip = takeWhile is_digit s1;
          s2 = dropWhile is_digit s1;
          has_frac = (take 1 s2 = ''.'');
          fp = (if has_frac then takeWhile is_digit (drop 1 s2) else []);
          s3 = (if has_frac then dropWhile is_digit (drop 1 s2) else s2);
          has_exp = (take 1 s3 = ''e'' \<or> take 1 s3 = ''E'');
          s4 = (if has_exp then drop 1 s3 else s3);
          eneg = (has_exp \<and> take 1 s4 = ''-'');
          s5 = (if has_exp \<and> (take 1 s4 = ''-'' \<or> take 1 s4 = ''+'') then drop 1 s4 else s4);
          ep = (if has_exp then takeWhile is_digit s5 else []);
          s6 = (if has_exp then dropWhile is_digit s5 else s3)
      in if ip = [] \<or> (1 < length ip \<and> take 1 ip = ''0'') \<or> (has_frac \<and> fp = [])
            \<or> (has_exp \<and> ep = [])
         then None
         else Some (JNum ((if neg then - 1 else 1) * int (digits_val (ip @ fp)))
                         ((if eneg then - 1 else 1) * int (digits_val ep) - int (length fp)),
                    s6))"

text \<open>
  Recursive descent over the text. The fuel bounds the nesting of calls; one unit is
  spent per call, and \<open>JSON_parse\<close> below supplies more than any text can use
  (lemma \<open>parse_value_fuel\<close>).
\<close>

fun parse_value :: "nat \<Rightarrow> string \<Rightarrow> (json \<times> string) parsed"
  and parse_elements :: "nat \<Rightarrow> json list \<Rightarrow> string \<Rightarrow> (json \<times> string) parsed"
  and parse_members :: "nat \<Rightarrow> (nat list \<times> json) list \<Rightarrow> string \<Rightarrow> (json \<times> string) parsed"
where
  "parse_value 0 s = OutOfFuel"
| "parse_value (Suc n) s =
     (case s of
        [] \<Rightarrow> Malformed
      | c # r \<Rightarrow>
          if c = CHR ''{'' then
            (case skip_ws r of
               [] \<Rightarrow> Malformed
             | d # t \<Rightarrow> if d = CHR ''}'' then Parsed (JObj [], t) else parse_members n [] (d # t))
          else if c = CHR ''['' then
            (case skip_ws r of
               [] \<Rightarrow> Malformed
             | d # t \<Rightarrow> if d = CHR '']'' then Parsed (JArr [], t) else parse_elements n [] (d # t))
          else if c = CHR 0x22 then
            (case json_chars r of None \<Rightarrow> Malformed | Some (us, t) \<Rightarrow> Parsed (JStr us, t))
          else if take 4 s = ''true'' then Parsed (JBool True, drop 4 s)
          else if take 5 s = ''false'' then Parsed (JBool False, drop 5 s)
          else if take 4 s = ''null'' then Parsed (JNull, drop 4 s)
          else (case json_number s of None \<Rightarrow> Malformed | Some (v, t) \<Rightarrow> Parsed (v, t)))"
| "parse_elements 0 acc s = OutOfFuel"
| "parse_elements (Suc n) acc s =
     (case parse_value n (skip_ws s) of
        Parsed (v, r) \<Rightarrow>
          (case skip_ws r of
             [] \<Rightarrow> Malformed
           | d # t \<Rightarrow>
               if d = CHR '','' then parse_elements n (acc @ [v]) t
               else if d = CHR '']'' then Parsed (JArr (acc @ [v]), t)
               else Malformed)
      | Malformed \<Rightarrow> Malformed
      | OutOfFuel \<Rightarrow> OutOfFuel)"
| "parse_members 0 acc s = OutOfFuel"
| "parse_members (Suc n) acc s =
     (case skip_ws s of
        [] \<Rightarrow> Malformed
      | q # r \<Rightarrow>
          if q \<noteq> CHR 0x22 then Malformed
          else
            (case json_chars r of
               None \<Rightarrow> Malformed
             | Some (k, r1) \<Rightarrow>
                 (case skip_ws r1 of
                    [] \<Rightarrow> Malformed
                  | colon # r2 \<Rightarrow>
                      if colon \<noteq> CHR '':'' then Malformed
                      else
                        (case parse_value n (skip_ws r2) of
                           Parsed (v, r3) \<Rightarrow>
                             (case skip_ws r3 of
                                [] \<Rightarrow> Malformed
                              | d # t \<Rightarrow>
                                  if d = CHR '','' then parse_members n (acc @ [(k, v)]) t
                                  else if d = CHR ''}'' then Parsed (JObj (acc @ [(k, v)]), t)
                                  else Malformed)
                         | Malformed \<Rightarrow> Malformed
                         | OutOfFuel \<Rightarrow> OutOfFuel))))"

text \<open>\<open>JSON.parse(text)\<close>: one value between optional white space; \<open>None\<close> is the
  thrown \<open>SyntaxError\<close>.\<close>

definition JSON_parse :: "string \<Rightarrow> json option" where
  "JSON_parse s =
     (case parse_value (2 * length s + 1) (skip_ws s) of
        Parsed (v, r) \<Rightarrow> if skip_ws r = [] then Some v else None
      | Malformed \<Rightarrow> None
      | OutOfFuel \<Rightarrow> None)"

text \<open>
  Property reads and truth tests on parsed values. \<open>field v k\<close> is \<open>v.k\<close>, with
  \<open>None\<close> for \<open>undefined\<close>. Reading a property of \<open>null\<close> throws; the handlers
  read properties only of what \<open>extractTaskFromSpeech\<close> returns, which is always an
  object (lemma \<open>extract_object\<close>), so that branch is not part of the model.
\<close>

fun field :: "json \<Rightarrow> string \<Rightarrow> json option" where
  "field (JObj kvs) k = map_of (rev kvs) (str k)"
| "field v k = None"

text \<open>A number is falsy when its double is zero: the mantissa is zero, or the value
  lies at or below half of the least subnormal, \<open>2 ^ -1075\<close>, and rounds to zero.\<close>

definition number_is_zero :: "int \<Rightarrow> int \<Rightarrow> bool" where
  "number_is_zero m e = (m = 0 \<or> (e < 0 \<and> \<bar>m\<bar> * 2 ^ 1075 \<le> 10 ^ nat (- e)))"

fun ToBoolean :: "json option \<Rightarrow> bool" where
  "ToBoolean None = False"
| "ToBoolean (Some JNull) = False"
| "ToBoolean (Some (JBool b)) = b"
| "ToBoolean (Some (JNum m e)) = (if number_is_zero m e then False else True)"
| "ToBoolean (Some (JStr us)) = (if us = [] then False else True)"
| "ToBoolean (Some (JArr vs)) = True"
| "ToBoolean (Some (JObj kvs)) = True"

text \<open>
  Where turning a parsed value into a primitive throws: in a template literal
  (\<open>ToString\<close>) and in \<open>new Date(v)\<close> (\<open>ToPrimitive\<close>). The methods tried are
  \<open>toString\<close> and \<open>valueOf\<close>. A parsed object inherits both, and the inherited
  \<open>valueOf\<close> returns the object itself, so the conversion rests on \<open>toString\<close>:
  an own member of that name is never callable, since it is a parsed value, and then
  no method yields a primitive and a \<open>TypeError\<close> is thrown. An array is joined,
  which converts each element that is not \<open>null\<close>. Every other value converts.
\<close>

fun ToString_throws :: "json \<Rightarrow> bool"
  and join_throws :: "json list \<Rightarrow> bool"
where
  "ToString_throws (JObj kvs) = (str ''toString'' \<in> set (map fst kvs))"
| "ToString_throws (JArr vs) = join_throws vs"
| "ToString_throws v = False"
| "join_throws [] = False"
| "join_throws (v # vs) = (ToString_throws v \<or> join_throws vs)"

definition conversion_throws :: "json option \<Rightarrow> bool" where
  "conversion_throws x = (case x of None \<Rightarrow> False | Some v \<Rightarrow> ToString_throws v)"


section \<open>The extraction client\<close>

text \<open>
  \<open>extractTaskFromSpeech\<close>, lines 130-162. The extraction service is outside the
  program: \<open>service\<close> gives, for a transcript, the text of the reply
  (\<open>response.content[0].text\<close>), or \<open>Unavailable\<close> when the request rejects or the
  response carries no text. Every thrown error is a value on the left.
\<close>

datatype exn = ServiceError | CouldNotParse | SyntaxError | InvalidCharacter

datatype service_reply = Unavailable | Reply string

definition extractTaskFromSpeech :: "(string \<Rightarrow> service_reply) \<Rightarrow> string \<Rightarrow> exn + json" where
  "extractTaskFromSpeech service transcript =
     (case service transcript of
        Unavailable \<Rightarrow> Inl ServiceError
      | Reply raw \<Rightarrow>
          (let text = trim raw
           in case match_braces text of
                Some jsonMatch \<Rightarrow>
                  (case JSON_parse jsonMatch of
                     Some v \<Rightarrow> Inr v
                   | None \<Rightarrow> Inl SyntaxError)
              | None \<Rightarrow> Inl CouldNotParse))"

text \<open>
  The specification's reading of the same step, for comparison: the first well-formed
  JSON object embedded in the reply. The candidates are the runs of the reply that start
  with an opening brace, by start position and then by length; the first that
  \<open>JSON.parse\<close> accepts as an object is the answer, and \<open>ParseError\<close> is the failure
  when there is none.
\<close>

definition embedded_objects :: "string \<Rightarrow> json list" where
  "embedded_objects text =
     concat (map (\<lambda>i. concat (map (\<lambda>n.
        if take 1 (drop i text) = ''{''
        then (case JSON_parse (take n (drop i text)) of
                Some (JObj kvs) \<Rightarrow> [JObj kvs]
              | _ \<Rightarrow> [])
        else []) [1..<Suc (length text - i)])) [0..<length text])"

datatype spec_failure = ParseError

definition spec_first_json_object :: "string \<Rightarrow> spec_failure + json" where
  "spec_first_json_object reply =
     (case embedded_objects reply of [] \<Rightarrow> Inl ParseError | v # vs \<Rightarrow> Inr v)"


section \<open>Spoken text\<close>

text \<open>
  A spoken text is a template literal kept in pieces: literal text, a value of the
  draft to be rendered as a string, and a date to be rendered by
  \<open>toLocaleDateString\<close> (of a draft value, or of a cell of the sheet). The
  characters of the rendering are the engine's and the locale's; whether building it
  throws is part of the model.
\<close>

datatype piece =
    Lit string
  | Val "json option"
  | DateOfVal "json option"
  | DateOfCell string


section \<open>The host\<close>

text \<open>
  What the program takes from its environment. \<open>Date_parse\<close> is the time value of
  \<open>new Date(s)\<close> in milliseconds since the epoch, \<open>None\<close> for an invalid date; outside
  the ISO forms its result is implementation-defined, so it is a parameter.
  \<open>LocalTZA t isUTC\<close> is the offset of the local time zone, as in ECMAScript.
  \<open>say_refuses\<close> is the TwiML library: \<open>twiml.say(text)\<close> builds an XML node at
  once and throws when the text holds a character the builder does not accept, leaving
  the response as it was. The fixed texts of the source and the URLs made from
  \<open>BASE_URL\<close> are taken to be accepted.
\<close>

record host =
  Date_parse :: "string \<Rightarrow> int option"
  LocalTZA :: "int \<Rightarrow> bool \<Rightarrow> int"
  say_refuses :: "piece list \<Rightarrow> bool"
  BASE_URL :: string
  MY_PHONE_NUMBER :: string
  TWILIO_PHONE_NUMBER :: string

definition msPerDay :: int where
  "msPerDay = 86400000"

definition TimeClip :: "int \<Rightarrow> int option" where
  "TimeClip t = (if \<bar>t\<bar> \<le> 8640000000000000 then Some t else None)"

definition LocalTime :: "host \<Rightarrow> int \<Rightarrow> int" where
  "LocalTime h t = t + LocalTZA h t True"

definition UTC :: "host \<Rightarrow> int \<Rightarrow> int" where
  "UTC h t = t - LocalTZA h t False"

text \<open>
  \<open>cutoff.setDate(cutoff.getDate() + days)\<close>, line 87, on a date with time value
  \<open>t\<close>. \<open>setDate\<close> builds the local date \<open>MakeDate(MakeDay(year, month, dt),
  TimeWithinDay(LocalTime t))\<close> and stores \<open>TimeClip(UTC(...))\<close>; with \<open>dt\<close> the day of
  the month plus \<open>days\<close>, \<open>MakeDay\<close> is the day number of \<open>LocalTime t\<close> plus
  \<open>days\<close>, so the local date is \<open>LocalTime t + days * msPerDay\<close>: the same wall-clock
  time \<open>days\<close> calendar days later.
\<close>

definition setDate_plus :: "host \<Rightarrow> int \<Rightarrow> int \<Rightarrow> int option" where
  "setDate_plus h t days = TimeClip (UTC h (LocalTime h t + days * msPerDay))"


section \<open>The task sheet\<close>

record sheet_task =
  rowIndex :: nat
  task :: string
  priority :: string
  status :: string
  dueDate :: string

text \<open>\<open>row[i] || dflt\<close>: a missing or empty cell takes the default.\<close>

definition cell :: "string list \<Rightarrow> nat \<Rightarrow> string \<Rightarrow> string" where
  "cell row i dflt = (if i < length row \<and> row ! i \<noteq> [] then row ! i else dflt)"

text \<open>\<open>readTasks\<close>, lines 60-78. The argument is the outcome of the read of
  \<open>Tasks!A2:D\<close>: the rows, or \<open>None\<close> when the request throws.\<close>

definition readTasks :: "string list list option \<Rightarrow> sheet_task list" where
  "readTasks response =
     (case response of
        None \<Rightarrow> []
      | Some rows \<Rightarrow>
          map (\<lambda>(index, row).
                 \<lparr>rowIndex = index + 2,
                  task = cell row 0 [],
                  priority = cell row 1 ''Medium'',
                  status = cell row 2 ''Not Started'',
                  dueDate = cell row 3 []\<rparr>)
              (enumerate 0 rows))"


section \<open>Upcoming tasks\<close>

text \<open>The callback of \<open>filter\<close>, lines 89-96. \<open>now\<close> is a valid date; a comparison
  with an invalid date is false.\<close>

definition dueFilter :: "host \<Rightarrow> int \<Rightarrow> int option \<Rightarrow> sheet_task \<Rightarrow> bool" where
  "dueFilter h now cutoff t =
     (if toLowerCase (status t) = ''completed'' \<or> toLowerCase (status t) = ''done'' then False
      else if dueDate t = [] then False
      else (case Date_parse h (dueDate t) of
              None \<Rightarrow> False
            | Some due \<Rightarrow>
                (case cutoff of
                   None \<Rightarrow> False
                 | Some c \<Rightarrow> now \<le> due \<and> due \<le> c)))"

text \<open>
  \<open>priorityOrder[k]\<close>, lines 97-99. \<open>priorityOrder\<close> is an object literal, so a
  key that is not its own is looked up in \<open>Object.prototype\<close>, whose members
  are functions and objects, not numbers. \<open>?? 1\<close> replaces only \<open>undefined\<close>.
\<close>

datatype prop_value = Num int | Inherited string

definition Object_prototype_keys :: "string list" where
  "Object_prototype_keys =
     [''constructor'', ''__defineGetter__'', ''__defineSetter__'', ''hasOwnProperty'',
      ''__lookupGetter__'', ''__lookupSetter__'', ''isPrototypeOf'', ''propertyIsEnumerable'',
      ''toString'', ''valueOf'', ''__proto__'', ''toLocaleString'']"

definition priorityOrder :: "string \<Rightarrow> prop_value option" where
  "priorityOrder k =
     (if k = ''high'' then Some (Num 0)
      else if k = ''medium'' then Some (Num 1)
      else if k = ''low'' then Some (Num 2)
      else if k \<in> set Object_prototype_keys then Some (Inherited k)
      else None)"

definition priorityRank :: "string \<Rightarrow> prop_value" where
  "priorityRank p = (case priorityOrder (toLowerCase p) of None \<Rightarrow> Num 1 | Some v \<Rightarrow> v)"

text \<open>The comparator of \<open>sort\<close>, lines 96-102; \<open>None\<close> is \<open>NaN\<close>, the difference
  when an operand is not a number or a date is invalid.\<close>

definition compareTasks :: "host \<Rightarrow> sheet_task \<Rightarrow> sheet_task \<Rightarrow> int option" where
  "compareTasks h a b =
     (let pA = priorityRank (priority a); pB = priorityRank (priority b)
      in if pA \<noteq> pB then
           (case (pA, pB) of (Num x, Num y) \<Rightarrow> Some (x - y) | _ \<Rightarrow> None)
         else
           (case (Date_parse h (dueDate a), Date_parse h (dueDate b)) of
              (Some x, Some y) \<Rightarrow> Some (x - y)
            | _ \<Rightarrow> None))"

text \<open>
  \<open>Array.prototype.sort\<close>. \<open>SortCompare\<close> reads \<open>NaN\<close> from the comparator as
  \<open>+0\<close>. The sort is stable, and for a comparator that orders the elements
  consistently its result is determined: it is what stable insertion gives. For a
  comparator that is not consistent (here: one that answers \<open>NaN\<close>) ECMAScript leaves
  the order to the implementation. \<open>sort_with\<close> is then one stable implementation
  and need not agree with the engine's on three or more elements; on two elements
  every implementation that reads \<open>NaN\<close> as \<open>+0\<close> leaves them in place. Nothing
  below is stated about the order of longer lists under such a comparator.
\<close>

definition SortCompare :: "('a \<Rightarrow> 'a \<Rightarrow> int option) \<Rightarrow> 'a \<Rightarrow> 'a \<Rightarrow> int" where
  "SortCompare comparefn x y = (case comparefn x y of None \<Rightarrow> 0 | Some v \<Rightarrow> v)"

fun insert_sorted :: "('a \<Rightarrow> 'a \<Rightarrow> int) \<Rightarrow> 'a \<Rightarrow> 'a list \<Rightarrow> 'a list" where
  "insert_sorted c x [] = [x]"
| "insert_sorted c x (y # ys) = (if c x y \<le> 0 then x # y # ys else y # insert_sorted c x ys)"

definition sort_with :: "('a \<Rightarrow> 'a \<Rightarrow> int) \<Rightarrow> 'a list \<Rightarrow> 'a list" where
  "sort_with c xs = foldr (insert_sorted c) xs []"

text \<open>
  Lines 85-102 on the tasks read: \<open>now\<close> and \<open>now'\<close> are the two readings of the
  clock (\<open>now\<close> and the date that becomes \<open>cutoff\<close>).
\<close>

definition dueTasks :: "host \<Rightarrow> int \<Rightarrow> int \<Rightarrow> int \<Rightarrow> sheet_task list \<Rightarrow> sheet_task list" where
  "dueTasks h now now' days tasks =
     sort_with (SortCompare (compareTasks h))
       (filter (dueFilter h now (setDate_plus h now' days)) tasks)"

text \<open>
  The order the specification describes, for comparison with the comparator: the rank
  of a priority is 0 for High, 1 for Medium and 2 for Low, without regard to case, and
  1 for every other string; tasks are ordered by rank and, within a rank, by due time.
\<close>

definition spec_rank :: "string \<Rightarrow> int" where
  "spec_rank p =
     (if toLowerCase p = ''high'' then 0 else if toLowerCase p = ''low'' then 2 else 1)"

definition spec_before :: "host \<Rightarrow> sheet_task \<Rightarrow> sheet_task \<Rightarrow> bool" where
  "spec_before h a b =
     (case (Date_parse h (dueDate a), Date_parse h (dueDate b)) of
        (Some x, Some y) \<Rightarrow>
          spec_rank (priority a) < spec_rank (priority b)
          \<or> (spec_rank (priority a) = spec_rank (priority b) \<and> x \<le> y)
      | _ \<Rightarrow> False)"

text \<open>\<open>getUpcomingTasks(days = 5)\<close>, lines 83-103; \<open>None\<close> is the omitted argument.\<close>

definition getUpcomingTasks ::
  "host \<Rightarrow> int \<Rightarrow> int \<Rightarrow> int option \<Rightarrow> string list list option \<Rightarrow> sheet_task list" where
  "getUpcomingTasks h now now' days response =
     dueTasks h now now' (case days of None \<Rightarrow> 5 | Some d \<Rightarrow> d) (readTasks response)"


section \<open>The voice dialog\<close>

text \<open>
  A response is the list of TwiML verbs the handler appended, in order. \<open>Say\<close>
  carries its text in pieces. \<open>Gather\<close> carries its input kinds (\<open>dtmf\<close>, the
  gateway's default, where the source names none), its action and the verbs nested in
  it; \<open>Record\<close> its action and its transcription callback. Voices, timeouts and the
  HTTP method are left out.
\<close>

datatype verb =
    Say "piece list"
  | Gather string string "verb list"
  | Record string "string option"
  | Redirect string
  | Hangup

text \<open>
  What persists between requests: \<open>app.locals.pendingTask\<close> (\<open>None\<close> is
  \<open>undefined\<close> or \<open>null\<close>) and the rows appended to the sheet, each the four
  values \<open>[task, priority, status, dueDate]\<close>.
\<close>

record world =
  pendingTask :: "json option"
  sheet :: "json option list list"

text \<open>\<open>addTask\<close>, lines 108-124. \<open>ok\<close> tells whether the append request succeeds;
  a failure is caught and reported as \<open>false\<close>. The log line after the append is a
  template literal of the four values inside the same \<open>try\<close>: when it throws, the row
  is written and the result is \<open>false\<close>.\<close>

definition row_values :: "json \<Rightarrow> json option list" where
  "row_values d = [field d ''task'', field d ''priority'', field d ''status'', field d ''dueDate'']"

definition log_throws :: "json \<Rightarrow> bool" where
  "log_throws d =
     (conversion_throws (field d ''task'') \<or> conversion_throws (field d ''priority'')
      \<or> conversion_throws (field d ''status'') \<or> conversion_throws (field d ''dueDate''))"

definition addTask :: "bool \<Rightarrow> json \<Rightarrow> world \<Rightarrow> bool \<times> world" where
  "addTask ok d w =
     (if ok
      then (if log_throws d then False else True, w\<lparr>sheet := sheet w @ [row_values d]\<rparr>)
      else (False, w))"

text \<open>\<open>POST /voice/inbound\<close>, lines 267-290: a recording without transcription.\<close>

definition inbound :: "host \<Rightarrow> verb list" where
  "inbound h =
     [Say [Lit ''Hey Jason! Ready to add a task. Tell me the task, priority, and due date after the beep. For example, say: Finish the Q3 report, high priority, due next Wednesday.''],
      Record (BASE_URL h @ ''/voice/process-task'') None,
      Say [Lit ''I didn't catch anything. Let's try again.''],
      Redirect (BASE_URL h @ ''/voice/inbound'')]"

text \<open>\<open>POST /voice/inbound-speech\<close>, lines 293-315.\<close>

definition inbound_speech :: "host \<Rightarrow> verb list" where
  "inbound_speech h =
     [Say [Lit ''Hey Jason! Tell me about the task you want to add.''],
      Gather ''speech'' (BASE_URL h @ ''/voice/process-speech'') [],
      Say [Lit ''I didn't catch that. Let's try again.''],
      Redirect (BASE_URL h @ ''/voice/inbound-speech'')]"

text \<open>\<open>POST /voice/morning-choice\<close>, lines 236-261.\<close>

definition morning_choice :: "host \<Rightarrow> string option \<Rightarrow> verb list" where
  "morning_choice h Digits =
     (if Digits = Some ''1'' then
        [Say [Lit ''Tell me about the task you'd like to add. Include the task name, priority if you have one, and when it's due.''],
         Record (BASE_URL h @ ''/voice/process-task'')
                (Some (BASE_URL h @ ''/voice/transcription-callback''))]
      else
        [Say [Lit ''Have a great day!''], Hangup])"

text \<open>\<open>POST /voice/process-task\<close>, lines 465-474: the action of the recording.\<close>

definition process_task :: "verb list" where
  "process_task =
     [Say [Lit ''Got your recording. I'll process it and add the task. You'll see it in your sheet shortly. Goodbye!''],
      Hangup]"

text \<open>
  The read-back of \<open>POST /voice/process-speech\<close>, lines 342-348, which runs inside
  the \<open>try\<close> before the draft is stored: \<open>new Date(taskData.dueDate)\<close>, the
  template literal of \<open>task\<close> and \<open>priority\<close>, and \<open>twiml.say\<close> of the text.
  \<open>toLocaleDateString\<close> does not throw (an invalid date reads \<open>Invalid Date\<close>).
\<close>

definition readback :: "json \<Rightarrow> piece list" where
  "readback taskData =
     [Lit ''Got it. Here's what I heard: '', Val (field taskData ''task''),
      Lit ''. Priority: '', Val (field taskData ''priority''),
      Lit ''. Due: '', DateOfVal (field taskData ''dueDate''), Lit ''.'']"

definition readback_throws :: "host \<Rightarrow> json \<Rightarrow> bool" where
  "readback_throws h taskData =
     (conversion_throws (field taskData ''dueDate'')
      \<or> conversion_throws (field taskData ''task'')
      \<or> conversion_throws (field taskData ''priority'')
      \<or> say_refuses h (readback taskData))"

text \<open>\<open>POST /voice/process-speech\<close>, lines 318-382. Every error thrown inside the
  \<open>try\<close>, by the extraction or by the read-back, ends in the \<open>catch\<close>.\<close>

definition process_speech ::
  "host \<Rightarrow> (string \<Rightarrow> service_reply) \<Rightarrow> string option \<Rightarrow> world \<Rightarrow> verb list \<times> world" where
  "process_speech h service SpeechResult w =
     (case (case SpeechResult of None \<Rightarrow> [] | Some t \<Rightarrow> t) of
        [] \<Rightarrow>
          ([Say [Lit ''I didn't catch that. Let's try again.''],
            Redirect (BASE_URL h @ ''/voice/inbound-speech'')], w)
      | c # cs \<Rightarrow>
          (case extractTaskFromSpeech service (c # cs) of
             Inl err \<Rightarrow>
               ([Say [Lit ''I had trouble processing that. Let's try again.''],
                 Redirect (BASE_URL h @ ''/voice/inbound-speech'')], w)
           | Inr taskData \<Rightarrow>
               if ToBoolean (field taskData ''error'') then
                 ([Say [Lit ''I couldn't understand that as a task. Let's try again.''],
                   Redirect (BASE_URL h @ ''/voice/inbound-speech'')], w)
               else if readback_throws h taskData then
                 ([Say [Lit ''I had trouble processing that. Let's try again.''],
                   Redirect (BASE_URL h @ ''/voice/inbound-speech'')], w)
               else
                 ([Say (readback taskData),
                   Gather ''speech dtmf'' (BASE_URL h @ ''/voice/confirm-task'')
                     [Say [Lit ''Press 1 or say yes to confirm. Press 2 or say no to try again.'']],
                   Say [Lit ''I'll save that for you.''],
                   Redirect (BASE_URL h @ ''/voice/auto-confirm'')],
                  w\<lparr>pendingTask := Some taskData\<rparr>)))"

text \<open>The two signals of the confirmation turn, lines 388-390.\<close>

definition speech_of :: "string option \<Rightarrow> string" where
  "speech_of SpeechResult = toLowerCase (case SpeechResult of None \<Rightarrow> [] | Some t \<Rightarrow> t)"

definition confirmed :: "string option \<Rightarrow> string option \<Rightarrow> bool" where
  "confirmed Digits SpeechResult =
     (Digits = Some ''1'' \<or> includes_str (speech_of SpeechResult) ''yes''
      \<or> includes_str (speech_of SpeechResult) ''confirm'')"

definition denied :: "string option \<Rightarrow> string option \<Rightarrow> bool" where
  "denied Digits SpeechResult =
     (Digits = Some ''2'' \<or> includes_str (speech_of SpeechResult) ''no''
      \<or> includes_str (speech_of SpeechResult) ''cancel'')"

text \<open>The pending draft when the slot is truthy.\<close>

definition pending :: "world \<Rightarrow> json option" where
  "pending w = (if ToBoolean (pendingTask w) then pendingTask w else None)"

text \<open>\<open>POST /voice/confirm-task\<close>, lines 385-432.\<close>

definition confirm_task ::
  "host \<Rightarrow> string option \<Rightarrow> string option \<Rightarrow> bool \<Rightarrow> world \<Rightarrow> verb list \<times> world" where
  "confirm_task h Digits SpeechResult ok w =
     (case
        (case (confirmed Digits SpeechResult, pending w) of
           (True, Some d) \<Rightarrow>
             (case addTask ok d w of
                (True, w1) \<Rightarrow>
                  ([Say [Lit ''Task saved! Would you like to add another task?''],
                    Gather ''speech dtmf'' (BASE_URL h @ ''/voice/add-another'')
                      [Say [Lit ''Press 1 or say yes to add another. Otherwise, hang up or press 2.'']],
                    Say [Lit ''Alright, have a great day Jason!''],
                    Hangup], w1)
              | (False, w1) \<Rightarrow>
                  ([Say [Lit ''Sorry, I had trouble saving that. Please try again later.''],
                    Hangup], w1))
         | _ \<Rightarrow>
             if denied Digits SpeechResult then
               ([Say [Lit ''No problem. Let's try again.''],
                 Redirect (BASE_URL h @ ''/voice/inbound-speech'')], w)
             else
               (case pending w of
                  Some d \<Rightarrow>
                    (case addTask ok d w of
                       (success, w1) \<Rightarrow>
                         ([Say [Lit ''Task saved! Have a great day Jason!''], Hangup], w1))
                | None \<Rightarrow> ([Hangup], w)))
      of (twiml, w2) \<Rightarrow> (twiml, w2\<lparr>pendingTask := None\<rparr>))"

text \<open>\<open>POST /voice/auto-confirm\<close>, lines 435-445.\<close>

definition auto_confirm :: "bool \<Rightarrow> world \<Rightarrow> verb list \<times> world" where
  "auto_confirm ok w =
     (case pending w of
        Some d \<Rightarrow>
          (case addTask ok d w of
             (success, w1) \<Rightarrow>
               ([Say [Lit ''Task saved! Have a great day Jason!''], Hangup],
                w1\<lparr>pendingTask := None\<rparr>))
      | None \<Rightarrow> ([Hangup], w))"

text \<open>\<open>POST /voice/add-another\<close>, lines 448-462.\<close>

definition add_another :: "host \<Rightarrow> string option \<Rightarrow> string option \<Rightarrow> verb list" where
  "add_another h Digits SpeechResult =
     (if Digits = Some ''1'' \<or> includes_str (speech_of SpeechResult) ''yes''
      then [Redirect (BASE_URL h @ ''/voice/inbound-speech'')]
      else [Say [Lit ''Have a great day Jason!''], Hangup])"

text \<open>\<open>POST /voice/transcription-callback\<close>, lines 477-492. The response is the
  bare status 200, so only the world is returned.\<close>

definition transcription_callback ::
  "(string \<Rightarrow> service_reply) \<Rightarrow> string option \<Rightarrow> bool \<Rightarrow> world \<Rightarrow> world" where
  "transcription_callback service TranscriptionText ok w =
     (case (case TranscriptionText of None \<Rightarrow> [] | Some t \<Rightarrow> t) of
        [] \<Rightarrow> w
      | c # cs \<Rightarrow>
          (case extractTaskFromSpeech service (c # cs) of
             Inl err \<Rightarrow> w
           | Inr taskData \<Rightarrow>
               if ToBoolean (field taskData ''error'') then w
               else snd (addTask ok taskData w)))"


section \<open>The morning call\<close>

record call =
  call_to :: string
  call_from :: string
  call_url :: string

text \<open>\<open>makeMorningCall\<close>, lines 168-190: the call it asks the gateway to place, or
  \<open>None\<close> when it returns without asking.\<close>

definition makeMorningCall ::
  "host \<Rightarrow> int \<Rightarrow> int \<Rightarrow> string list list option \<Rightarrow> call option" where
  "makeMorningCall h now now' response =
     (let tasks = getUpcomingTasks h now now' (Some 5) response
      in if length tasks = 0 then None
         else Some \<lparr>call_to = MY_PHONE_NUMBER h, call_from = TWILIO_PHONE_NUMBER h,
                    call_url = BASE_URL h @ ''/voice/morning-briefing''\<rparr>)"

text \<open>\<open>POST /voice/morning-briefing\<close>, lines 193-234. The handler has no
  \<open>try\<close>: when the builder refuses the rundown, the error leaves the handler and
  no response is sent.\<close>

definition task_sentence :: "nat \<times> sheet_task \<Rightarrow> piece list" where
  "task_sentence it =
     (case it of (i, t) \<Rightarrow>
        [Lit ''Task '', Lit (show_nat (i + 1)), Lit '': '', Lit (task t),
         Lit ''. Priority: '', Lit (priority t),
         Lit ''. Due: '', DateOfCell (dueDate t),
         Lit ''. Status: '', Lit (status t), Lit ''. ''])"

definition rundown :: "sheet_task list \<Rightarrow> piece list" where
  "rundown tasks =
     [Lit ''Good morning Jason! You have '', Lit (show_nat (length tasks)),
      Lit '' task'', Lit (if 1 < length tasks then ''s'' else []),
      Lit '' coming up in the next 5 days. Here's your rundown. '']
     @ concat (map task_sentence (enumerate 0 tasks))
     @ [Lit ''That's your lineup. Go crush it today!'']"

definition morning_briefing ::
  "host \<Rightarrow> int \<Rightarrow> int \<Rightarrow> string list list option \<Rightarrow> exn + verb list" where
  "morning_briefing h now now' response =
     (let tasks = getUpcomingTasks h now now' (Some 5) response
      in if length tasks = 0 then
           Inr [Say [Lit ''Good morning Jason! You have no tasks due in the next 5 days. Have a great day!''],
                Hangup]
         else if say_refuses h (rundown tasks) then Inl InvalidCharacter
         else
           Inr [Say (rundown tasks),
                Gather ''dtmf'' (BASE_URL h @ ''/voice/morning-choice'')
                  [Say [Lit ''Press 1 if you'd like to add a new task, or just hang up to go about your day.'']],
                Say [Lit ''Alright, have a productive day Jason!''],
                Hangup])"


section \<open>Hosts to run the model on\<close>

text \<open>
  Two hosts whose \<open>Date.parse\<close> reads the date-only form \<open>YYYY-MM-DD\<close> as
  midnight UTC, as ECMAScript prescribes for it, and nothing else, and whose TwiML
  builder refuses what XML 1.0 does not allow as a character: the control characters
  other than TAB, LF and CR, the code units FFFE and FFFF, and a surrogate without its
  partner. Of a value only its strings, alone or in arrays, bring characters of their
  own into the text. \<open>utc_host\<close> runs in UTC; \<open>mountain_host\<close> keeps Mountain
  Time as it was in 2025: seven hours behind UTC, six from 9 March, 2:00 local
  (09:00 UTC) to 2 November, 2:00 local (08:00 UTC). A local time in the skipped or in
  the repeated hour takes the offset from before the change.
\<close>

definition days_from_civil :: "int \<Rightarrow> int \<Rightarrow> int \<Rightarrow> int" where
  "days_from_civil y m d =
     (let y1 = (if m \<le> 2 then y - 1 else y);
          era = y1 div 400;
          yoe = y1 - era * 400;
          doy = (153 * (if 2 < m then m - 3 else m + 9) + 2) div 5 + d - 1;
          doe = yoe * 365 + yoe div 4 - yoe div 100 + doy
      in era * 146097 + doe - 719468)"

definition days_in_month :: "int \<Rightarrow> int \<Rightarrow> int" where
  "days_in_month y m =
     (if m = 2 then
        (if y mod 400 = 0 then 29 else if y mod 100 = 0 then 28 else if y mod 4 = 0 then 29 else 28)
      else if m = 4 \<or> m = 6 \<or> m = 9 \<or> m = 11 then 30 else 31)"

definition iso_date :: "string \<Rightarrow> int option" where
  "iso_date s =
     (if length s = 10 \<and> list_all is_digit (take 4 s) \<and> take 1 (drop 4 s) = ''-''
         \<and> list_all is_digit (take 2 (drop 5 s)) \<and> take 1 (drop 7 s) = ''-''
         \<and> list_all is_digit (drop 8 s)
      then
        (let y = int (digits_val (take 4 s));
             m = int (digits_val (take 2 (drop 5 s)));
             d = int (digits_val (drop 8 s))
         in if 1 \<le> m \<and> m \<le> 12 \<and> 1 \<le> d \<and> d \<le> days_in_month y m
            then Some (days_from_civil y m d * msPerDay) else None)
      else None)"

fun xml_units_ok :: "nat list \<Rightarrow> bool" where
  "xml_units_ok [] = True"
| "xml_units_ok (u # us) =
     (if 55296 \<le> u \<and> u \<le> 56319 then
        (case us of
           [] \<Rightarrow> False
         | l # r \<Rightarrow> 56320 \<le> l \<and> l \<le> 57343 \<and> xml_units_ok r)
      else if 56320 \<le> u \<and> u \<le> 57343 then False
      else (u = 9 \<or> u = 10 \<or> u = 13 \<or> (32 \<le> u \<and> u < 65534)) \<and> xml_units_ok us)"

fun xml_value_ok :: "json \<Rightarrow> bool"
  and xml_values_ok :: "json list \<Rightarrow> bool"
where
  "xml_value_ok (JStr us) = xml_units_ok us"
| "xml_value_ok (JArr vs) = xml_values_ok vs"
| "xml_value_ok v = True"
| "xml_values_ok [] = True"
| "xml_values_ok (v # vs) = (xml_value_ok v \<and> xml_values_ok vs)"

fun xml_piece_ok :: "piece \<Rightarrow> bool" where
  "xml_piece_ok (Lit s) = xml_units_ok (str s)"
| "xml_piece_ok (Val (Some v)) = xml_value_ok v"
| "xml_piece_ok p = True"

definition xml_refuses :: "piece list \<Rightarrow> bool" where
  "xml_refuses ps = (if list_all xml_piece_ok ps then False else True)"

definition utc_host :: host where
  "utc_host =
     \<lparr>Date_parse = iso_date, LocalTZA = (\<lambda>t isUTC. 0), say_refuses = xml_refuses,
      BASE_URL = ''https://tasks.example'',
      MY_PHONE_NUMBER = ''+15550100'', TWILIO_PHONE_NUMBER = ''+15550199''\<rparr>"

definition mountain_offset :: "int \<Rightarrow> bool \<Rightarrow> int" where
  "mountain_offset t isUTC =
     (if isUTC then
        (if 1741510800000 \<le> t \<and> t < 1762070400000 then - 21600000 else - 25200000)
      else
        (if 1741489200000 \<le> t \<and> t < 1762048800000 then - 21600000 else - 25200000))"

definition mountain_host :: host where
  "mountain_host =
     \<lparr>Date_parse = iso_date, LocalTZA = mountain_offset, say_refuses = xml_refuses,
      BASE_URL = ''https://tasks.example'',
      MY_PHONE_NUMBER = ''+15550100'', TWILIO_PHONE_NUMBER = ''+15550199''\<rparr>"


section \<open>Properties of the parser\<close>

text \<open>Each successful parse consumes input, and the fuel \<open>JSON_parse\<close> supplies is
  never exhausted: \<open>None\<close> from \<open>JSON_parse\<close> is always a malformed text.\<close>

lemma json_chars_shorter: "json_chars s = Some (u, t) \<Longrightarrow> length t < length s"
proof (induction s arbitrary: u t rule: json_chars.induct)
  case 1
  then show ?case by simp
next
  case (2 c cs)
  consider (q) "c = CHR 0x22" | (esc) "c \<noteq> CHR 0x22" "c = CHR 0x5C"
    | (raw) "c \<noteq> CHR 0x22" "c \<noteq> CHR 0x5C" by blast
  then show ?case
  proof cases
    case q
    with 2(4) show ?thesis by simp
  next
    case esc
    with 2(4) obtain e r where cs: "cs = e # r" by (auto split: list.splits)
    show ?thesis
    proof (cases "e = CHR ''u''")
      case True
      with 2(4) esc cs obtain x us where h: "hex4 (take 4 r) = Some x"
        and j: "json_chars (drop 4 r) = Some (us, t)"
        by (auto split: option.splits)
      from 2(1)[OF esc cs True h j] show ?thesis using cs by simp
    next
      case False
      with 2(4) esc cs obtain x us where h: "escape_unit e = Some x"
        and j: "json_chars r = Some (us, t)"
        by (auto split: option.splits)
      from 2(2)[OF esc cs False h j] show ?thesis using cs by simp
    qed
  next
    case raw
    with 2(4) obtain us where n: "\<not> (of_char c :: nat) < 32" and j: "json_chars cs = Some (us, t)"
      by (auto split: if_splits)
    from 2(3)[OF raw n j] show ?thesis by simp
  qed
qed

lemma dropWhile_shorter: "takeWhile P xs \<noteq> [] \<Longrightarrow> length (dropWhile P xs) < length xs"
  by (cases xs) (auto simp: less_Suc_eq_le length_dropWhile_le split: if_splits)

lemma json_number_shorter:
  assumes "json_number s = Some (v, t)"
  shows "length t < length s"
proof -
  define s1 where "s1 = (if take 1 s = ''-'' then drop 1 s else s)"
  define s2 where "s2 = dropWhile is_digit s1"
  define s3 where "s3 = (if take 1 s2 = ''.'' then dropWhile is_digit (drop 1 s2) else s2)"
  define s4 where "s4 = (if take 1 s3 = ''e'' \<or> take 1 s3 = ''E'' then drop 1 s3 else s3)"
  define s5 where "s5 = (if (take 1 s3 = ''e'' \<or> take 1 s3 = ''E'') \<and> (take 1 s4 = ''-'' \<or> take 1 s4 = ''+'') then drop 1 s4 else s4)"
  define s6 where "s6 = (if take 1 s3 = ''e'' \<or> take 1 s3 = ''E'' then dropWhile is_digit s5 else s3)"
  have d: "json_number s = (if takeWhile is_digit s1 = [] \<or> (1 < length (takeWhile is_digit s1) \<and> take 1 (takeWhile is_digit s1) = ''0'')
       \<or> (take 1 s2 = ''.'' \<and> (if take 1 s2 = ''.'' then takeWhile is_digit (drop 1 s2) else []) = [])
       \<or> ((take 1 s3 = ''e'' \<or> take 1 s3 = ''E'') \<and> (if (take 1 s3 = ''e'' \<or> take 1 s3 = ''E'') then takeWhile is_digit s5 else []) = [])
      then None else Some (JNum ((if take 1 s = ''-'' then - 1 else 1) * int (digits_val (takeWhile is_digit s1 @ (if take 1 s2 = ''.'' then takeWhile is_digit (drop 1 s2) else []))))
                         ((if ((take 1 s3 = ''e'' \<or> take 1 s3 = ''E'') \<and> take 1 s4 = ''-'') then - 1 else 1) * int (digits_val (if (take 1 s3 = ''e'' \<or> take 1 s3 = ''E'') then takeWhile is_digit s5 else [])) - int (length (if take 1 s2 = ''.'' then takeWhile is_digit (drop 1 s2) else []))), s6))"
    unfolding json_number_def Let_def s1_def s2_def s3_def s4_def s5_def s6_def by (rule refl)
  from assms have ip: "takeWhile is_digit s1 \<noteq> []" and t: "t = s6"
    unfolding d by (simp_all split: if_splits)
  have 1: "length s1 \<le> length s" by (simp add: s1_def)
  have 2: "length s2 < length s1" unfolding s2_def using ip by (rule dropWhile_shorter)
  have 3: "length s3 \<le> length s2"
    unfolding s3_def using length_dropWhile_le[of is_digit "drop 1 s2"] by auto
  have 4: "length s4 \<le> length s3" by (simp add: s4_def)
  have 5: "length s5 \<le> length s4" by (simp add: s5_def)
  have 6: "length s6 \<le> length s3"
    unfolding s6_def using length_dropWhile_le[of is_digit s5] 4 5 by auto
  show ?thesis unfolding t using 1 2 3 6 by linarith
qed

lemma skip_ws_le: "length (skip_ws r) \<le> length r"
  by (simp add: skip_ws_def length_dropWhile_le)

lemma pv_step:
  assumes a: "parse_value (Suc n) s = Parsed (v, t)"
    and m: "\<forall>s v t am. parse_members n am s = Parsed (v, t) \<longrightarrow> length t < length s"
    and e: "\<forall>s v t ac. parse_elements n ac s = Parsed (v, t) \<longrightarrow> length t < length s"
  shows "length t < length s"
proof (cases s)
  case Nil
  with a show ?thesis by simp
next
  case (Cons c r)
  consider (obj) "c = CHR ''{''" | (arr) "c \<noteq> CHR ''{''" "c = CHR ''[''"
    | (strg) "c \<noteq> CHR ''{''" "c \<noteq> CHR ''[''" "c = CHR 0x22"
    | (other) "c \<noteq> CHR ''{''" "c \<noteq> CHR ''[''" "c \<noteq> CHR 0x22" by blast
  then show ?thesis
  proof cases
    case obj
    from a Cons obj obtain d u where sk: "skip_ws r = d # u" by (auto split: list.splits)
    have l: "length (d # u) \<le> length r" using skip_ws_le[of r] sk by simp
    show ?thesis
    proof (cases "d = CHR ''}''")
      case True
      then have "t = u" using a Cons obj sk by simp
      then show ?thesis using l Cons by simp
    next
      case False
      then have "parse_members n [] (d # u) = Parsed (v, t)" using a Cons obj sk by simp
      from m[rule_format, OF this] show ?thesis using l Cons by simp
    qed
  next
    case arr
    from a Cons arr obtain d u where sk: "skip_ws r = d # u" by (auto split: list.splits)
    have l: "length (d # u) \<le> length r" using skip_ws_le[of r] sk by simp
    show ?thesis
    proof (cases "d = CHR '']''")
      case True
      then have "t = u" using a Cons arr sk by simp
      then show ?thesis using l Cons by simp
    next
      case False
      then have "parse_elements n [] (d # u) = Parsed (v, t)" using a Cons arr sk by simp
      from e[rule_format, OF this] show ?thesis using l Cons by simp
    qed
  next
    case strg
    from a Cons strg obtain us where "json_chars r = Some (us, t)"
      by (auto split: option.splits)
    from json_chars_shorter[OF this] show ?thesis using Cons by simp
  next
    case other
    have "t = drop 4 s \<or> t = drop 5 s \<or> (\<exists>v. json_number s = Some (v, t))"
      using a Cons other by (simp split: if_splits option.splits)
    moreover have "\<And>v. json_number s = Some (v, t) \<Longrightarrow> length t < length s"
      by (rule json_number_shorter)
    ultimately show ?thesis using Cons by auto
  qed
qed

lemma pe_step:
  assumes a: "parse_elements (Suc n) acc s = Parsed (v, t)"
    and pv: "\<forall>s v t. parse_value n s = Parsed (v, t) \<longrightarrow> length t < length s"
    and e: "\<forall>s v t ac. parse_elements n ac s = Parsed (v, t) \<longrightarrow> length t < length s"
  shows "length t < length s"
proof -
  from a obtain v1 r where p: "parse_value n (skip_ws s) = Parsed (v1, r)"
    by (auto split: parsed.splits)
  have l1: "length r < length s" using pv[rule_format, OF p] skip_ws_le[of s] by simp
  from a p obtain d u where sk: "skip_ws r = d # u" by (auto split: list.splits)
  have l2: "length u < length r" using skip_ws_le[of r] sk by simp
  show ?thesis
  proof (cases "d = CHR '',''")
    case True
    then have "parse_elements n (acc @ [v1]) u = Parsed (v, t)" using a p sk by simp
    from e[rule_format, OF this] show ?thesis using l1 l2 by linarith
  next
    case False
    then have "t = u" using a p sk by (auto split: if_splits)
    then show ?thesis using l1 l2 by simp
  qed
qed

lemma pm_step:
  assumes a: "parse_members (Suc n) acc s = Parsed (v, t)"
    and pv: "\<forall>s v t. parse_value n s = Parsed (v, t) \<longrightarrow> length t < length s"
    and m: "\<forall>s v t am. parse_members n am s = Parsed (v, t) \<longrightarrow> length t < length s"
  shows "length t < length s"
proof -
  from a obtain q r where s1: "skip_ws s = q # r" by (auto split: list.splits)
  from a s1 have q: "q = CHR 0x22" by (auto split: if_splits)
  from a s1 q obtain k r1 where jc: "json_chars r = Some (k, r1)" by (auto split: option.splits)
  from a s1 q jc obtain colon r2 where s2: "skip_ws r1 = colon # r2"
    by (auto split: list.splits)
  from a s1 q jc s2 have c: "colon = CHR '':''" by (auto split: if_splits)
  from a s1 q jc s2 c obtain v1 r3 where p: "parse_value n (skip_ws r2) = Parsed (v1, r3)"
    by (auto split: parsed.splits)
  from a s1 q jc s2 c p obtain d u where s3: "skip_ws r3 = d # u" by (auto split: list.splits)
  have l0: "length r < length s" using skip_ws_le[of s] s1 by simp
  have l1: "length r1 < length r" using jc by (rule json_chars_shorter)
  have l2: "length r2 < length r1" using skip_ws_le[of r1] s2 by simp
  have l3: "length r3 < length r2" using pv[rule_format, OF p] skip_ws_le[of r2] by simp
  have l4: "length u < length r3" using skip_ws_le[of r3] s3 by simp
  show ?thesis
  proof (cases "d = CHR '',''")
    case True
    then have "parse_members n (acc @ [(k, v1)]) u = Parsed (v, t)"
      using a s1 q jc s2 c p s3 by simp
    from m[rule_format, OF this] show ?thesis using l0 l1 l2 l3 l4 by linarith
  next
    case False
    then have "t = u" using a s1 q jc s2 c p s3 by (auto split: if_splits)
    then show ?thesis using l0 l1 l2 l3 l4 by simp
  qed
qed

lemma parse_shorter_all:
  "(\<forall>s v t. parse_value n s = Parsed (v, t) \<longrightarrow> length t < length s) \<and>
   (\<forall>s v t ac. parse_elements n ac s = Parsed (v, t) \<longrightarrow> length t < length s) \<and>
   (\<forall>s v t am. parse_members n am s = Parsed (v, t) \<longrightarrow> length t < length s)"
proof (induction n)
  case 0
  then show ?case by simp
next
  case (Suc n)
  then have pv: "\<forall>s v t. parse_value n s = Parsed (v, t) \<longrightarrow> length t < length s"
    and e: "\<forall>s v t ac. parse_elements n ac s = Parsed (v, t) \<longrightarrow> length t < length s"
    and m: "\<forall>s v t am. parse_members n am s = Parsed (v, t) \<longrightarrow> length t < length s"
    by blast+
  have "\<And>s v t. parse_value (Suc n) s = Parsed (v, t) \<Longrightarrow> length t < length s"
    by (rule pv_step[OF _ m e])
  moreover have "\<And>s v t ac. parse_elements (Suc n) ac s = Parsed (v, t) \<Longrightarrow> length t < length s"
    by (rule pe_step[OF _ pv e])
  moreover have "\<And>s v t am. parse_members (Suc n) am s = Parsed (v, t) \<Longrightarrow> length t < length s"
    by (rule pm_step[OF _ pv m])
  ultimately show ?case by blast
qed

lemma parse_value_shorter: "parse_value n s = Parsed (v, t) \<Longrightarrow> length t < length s"
  using parse_shorter_all by blast

lemma pv_fuel:
  assumes f: "2 * length s < Suc n"
    and e: "\<forall>s ac. 2 * length s + 1 < n \<longrightarrow> parse_elements n ac s \<noteq> OutOfFuel"
    and m: "\<forall>s am. 2 * length s + 1 < n \<longrightarrow> parse_members n am s \<noteq> OutOfFuel"
  shows "parse_value (Suc n) s \<noteq> OutOfFuel"
proof (cases s)
  case Nil
  then show ?thesis by simp
next
  case (Cons c r)
  have k: "\<And>d u. skip_ws r = d # u \<Longrightarrow> 2 * length (d # u) + 1 < n"
  proof -
    fix d u assume "skip_ws r = d # u"
    then have "length (d # u) \<le> length r" using skip_ws_le[of r] by simp
    then show "2 * length (d # u) + 1 < n" using f Cons by simp
  qed
  show ?thesis using Cons k e m
    by (simp split: list.splits option.splits)
qed

lemma pe_fuel:
  assumes f: "2 * length s + 1 < Suc n"
    and pv: "\<forall>s. 2 * length s < n \<longrightarrow> parse_value n s \<noteq> OutOfFuel"
    and e: "\<forall>s ac. 2 * length s + 1 < n \<longrightarrow> parse_elements n ac s \<noteq> OutOfFuel"
  shows "parse_elements (Suc n) acc s \<noteq> OutOfFuel"
proof (cases "parse_value n (skip_ws s)")
  case (Parsed x)
  obtain v r where x: "x = (v, r)" by (cases x)
  have l1: "length r < length s"
    using parse_value_shorter[of n "skip_ws s" v r] Parsed x skip_ws_le[of s] by simp
  show ?thesis
  proof (cases "skip_ws r")
    case Nil
    then show ?thesis using Parsed x by simp
  next
    case (Cons d u)
    then have "length u < length r" using skip_ws_le[of r] by simp
    then have "2 * length u + 1 < n" using l1 f by simp
    then have "parse_elements n (acc @ [v]) u \<noteq> OutOfFuel" using e by blast
    then show ?thesis using Parsed x Cons by simp
  qed
next
  case Malformed
  then show ?thesis by simp
next
  case OutOfFuel
  have "2 * length (skip_ws s) < n" using f skip_ws_le[of s] by simp
  then show ?thesis using pv OutOfFuel by blast
qed

lemma pm_fuel:
  assumes f: "2 * length s + 1 < Suc n"
    and pv: "\<forall>s. 2 * length s < n \<longrightarrow> parse_value n s \<noteq> OutOfFuel"
    and m: "\<forall>s am. 2 * length s + 1 < n \<longrightarrow> parse_members n am s \<noteq> OutOfFuel"
  shows "parse_members (Suc n) acc s \<noteq> OutOfFuel"
proof (cases "skip_ws s")
  case Nil
  then show ?thesis by simp
next
  case s1: (Cons q r)
  have l0: "length r < length s" using skip_ws_le[of s] s1 by simp
  show ?thesis
  proof (cases "json_chars r")
    case None
    then show ?thesis using s1 by simp
  next
    case (Some kr)
    obtain k r1 where kr: "kr = (k, r1)" by (cases kr)
    have l1: "length r1 < length r" using Some kr json_chars_shorter by blast
    show ?thesis
    proof (cases "skip_ws r1")
      case Nil
      then show ?thesis using s1 Some kr by simp
    next
      case s2: (Cons colon r2)
      have l2: "length r2 < length r1" using skip_ws_le[of r1] s2 by simp
      show ?thesis
      proof (cases "parse_value n (skip_ws r2)")
        case (Parsed x)
        obtain v r3 where x: "x = (v, r3)" by (cases x)
        have l3: "length r3 < length r2"
          using parse_value_shorter[of n "skip_ws r2" v r3] Parsed x skip_ws_le[of r2] by simp
        show ?thesis
        proof (cases "skip_ws r3")
          case Nil
          then show ?thesis using s1 Some kr s2 Parsed x by simp
        next
          case (Cons d u)
          then have "length u < length r3" using skip_ws_le[of r3] by simp
          then have "2 * length u + 1 < n" using l0 l1 l2 l3 f by simp
          then have "parse_members n (acc @ [(k, v)]) u \<noteq> OutOfFuel" using m by blast
          then show ?thesis using s1 Some kr s2 Parsed x Cons by simp
        qed
      next
        case Malformed
        then show ?thesis using s1 Some kr s2 by simp
      next
        case OutOfFuel
        have "2 * length (skip_ws r2) < n" using f skip_ws_le[of r2] l0 l1 l2 by simp
        then show ?thesis using pv OutOfFuel by blast
      qed
    qed
  qed
qed

lemma parse_fuel_all:
  "(\<forall>s. 2 * length s < n \<longrightarrow> parse_value n s \<noteq> OutOfFuel) \<and>
   (\<forall>s ac. 2 * length s + 1 < n \<longrightarrow> parse_elements n ac s \<noteq> OutOfFuel) \<and>
   (\<forall>s am. 2 * length s + 1 < n \<longrightarrow> parse_members n am s \<noteq> OutOfFuel)"
proof (induction n)
  case 0
  then show ?case by simp
next
  case (Suc n)
  then have pv: "\<forall>s. 2 * length s < n \<longrightarrow> parse_value n s \<noteq> OutOfFuel"
    and e: "\<forall>s ac. 2 * length s + 1 < n \<longrightarrow> parse_elements n ac s \<noteq> OutOfFuel"
    and m: "\<forall>s am. 2 * length s + 1 < n \<longrightarrow> parse_members n am s \<noteq> OutOfFuel"
    by blast+
  have "\<And>s. 2 * length s < Suc n \<Longrightarrow> parse_value (Suc n) s \<noteq> OutOfFuel"
    by (rule pv_fuel[OF _ e m])
  moreover have "\<And>s ac. 2 * length s + 1 < Suc n \<Longrightarrow> parse_elements (Suc n) ac s \<noteq> OutOfFuel"
    by (rule pe_fuel[OF _ pv e])
  moreover have "\<And>s am. 2 * length s + 1 < Suc n \<Longrightarrow> parse_members (Suc n) am s \<noteq> OutOfFuel"
    by (rule pm_fuel[OF _ pv m])
  ultimately show ?case by blast
qed

lemma parse_value_fuel: "parse_value (2 * length s + 1) (skip_ws s) \<noteq> OutOfFuel"
proof -
  have "2 * length (skip_ws s) < 2 * length s + 1" using skip_ws_le[of s] by simp
  then show ?thesis using parse_fuel_all by blast
qed

lemma parse_members_object:
  "parse_members n am s = Parsed (v, t) \<Longrightarrow> \<exists>kvs. v = JObj kvs"
proof (induction n arbitrary: am s)
  case 0
  then show ?case by simp
next
  case (Suc n)
  from Suc.prems obtain q r where s1: "skip_ws s = q # r" by (auto split: list.splits)
  from Suc.prems s1 have q: "q = CHR 0x22" by (auto split: if_splits)
  from Suc.prems s1 q obtain k r1 where jc: "json_chars r = Some (k, r1)" by (auto split: option.splits)
  from Suc.prems s1 q jc obtain colon r2 where s2: "skip_ws r1 = colon # r2"
    by (auto split: list.splits)
  from Suc.prems s1 q jc s2 have c: "colon = CHR '':''" by (auto split: if_splits)
  from Suc.prems s1 q jc s2 c obtain v1 r3 where p: "parse_value n (skip_ws r2) = Parsed (v1, r3)"
    by (auto split: parsed.splits)
  from Suc.prems s1 q jc s2 c p obtain d u where s3: "skip_ws r3 = d # u" by (auto split: list.splits)
  show ?case
  proof (cases "d = CHR '',''")
    case True
    then have "parse_members n (am @ [(k, v1)]) u = Parsed (v, t)"
      using Suc.prems s1 q jc s2 c p s3 by simp
    then show ?thesis by (rule Suc.IH)
  next
    case False
    then show ?thesis using Suc.prems s1 q jc s2 c p s3 by (auto split: if_splits)
  qed
qed

lemma JSON_parse_object:
  assumes "JSON_parse (CHR ''{'' # s) = Some v"
  shows "\<exists>kvs. v = JObj kvs"
proof -
  have sk: "skip_ws (CHR ''{'' # s) = CHR ''{'' # s" by (simp add: skip_ws_def is_json_ws_def)
  from assms obtain r where p: "parse_value (2 * length (CHR ''{'' # s) + 1) (CHR ''{'' # s) = Parsed (v, r)"
    unfolding JSON_parse_def sk by (auto split: parsed.splits if_splits)
  obtain n where n: "2 * length (CHR ''{'' # s) + 1 = Suc n" by simp
  from p[unfolded n] obtain d u where "skip_ws s = d # u" by (auto split: list.splits)
  with p[unfolded n] have "v = JObj [] \<or> parse_members n [] (d # u) = Parsed (v, r)"
    by (auto split: if_splits)
  then show ?thesis using parse_members_object by blast
qed


section \<open>Properties of the match\<close>

text \<open>The match of \<open>/\{[\s\S]*\}/\<close> runs from the first opening brace to the last
  closing brace, and there is none exactly when no closing brace follows the first
  opening one.\<close>

lemma greedy_none: "greedy_to_close s = None \<longleftrightarrow> CHR ''}'' \<notin> set s"
  by (induction s) (auto split: option.splits)

lemma greedy_last:
  "CHR ''}'' \<notin> set suf \<Longrightarrow> greedy_to_close (mid @ CHR ''}'' # suf) = Some (mid @ [CHR ''}''])"
proof (induction mid)
  case Nil
  then have "greedy_to_close suf = None" by (simp add: greedy_none)
  then show ?case by simp
next
  case (Cons a mid)
  then show ?case by simp
qed

lemma match_braces_span:
  "CHR ''{'' \<notin> set pre \<Longrightarrow> CHR ''}'' \<notin> set suf \<Longrightarrow>
   match_braces (pre @ CHR ''{'' # mid @ CHR ''}'' # suf) = Some (CHR ''{'' # mid @ [CHR ''}''])"
  by (induction pre) (auto simp: greedy_last split: option.splits)

lemma match_braces_none:
  "match_braces s = None \<longleftrightarrow> (\<forall>pre rest. s = pre @ CHR ''{'' # rest \<longrightarrow> CHR ''}'' \<notin> set rest)"
proof (induction s)
  case Nil
  then show ?case by simp
next
  case (Cons c cs)
  show ?case
  proof (cases "c = CHR ''{'' \<and> CHR ''}'' \<in> set cs")
    case True
    then have "match_braces (c # cs) \<noteq> None"
      using greedy_none[of cs] by (auto split: option.splits)
    moreover have "c # cs = [] @ CHR ''{'' # cs" using True by simp
    ultimately show ?thesis using True by blast
  next
    case False
    then have m: "match_braces (c # cs) = match_braces cs"
      using greedy_none[of cs] by (auto split: option.splits)
    show ?thesis unfolding m Cons.IH
      using False by (auto simp: Cons_eq_append_conv)
  qed
qed

lemma match_braces_head: "match_braces s = Some m \<Longrightarrow> \<exists>r. m = CHR ''{'' # r"
  by (induction s) (auto split: option.splits if_splits)

lemma greedy_no_close: "CHR ''}'' \<notin> set s \<Longrightarrow> greedy_to_close s = None"
  by (simp add: greedy_none)

lemma match_braces_no_close: "CHR ''}'' \<notin> set s \<Longrightarrow> match_braces s = None"
  by (induction s) (simp_all add: greedy_no_close)

lemma match_braces_none_iff:
  "match_braces s = None \<longleftrightarrow> CHR ''}'' \<notin> set (dropWhile (\<lambda>c. c \<noteq> CHR ''{'') s)"
proof (induction s)
  case Nil
  then show ?case by simp
next
  case (Cons c cs)
  show ?case
  proof (cases "c = CHR ''{''")
    case True
    show ?thesis
    proof (cases "CHR ''}'' \<in> set cs")
      case in_cs: True
      then have "greedy_to_close cs \<noteq> None" by (simp add: greedy_none)
      then show ?thesis using True in_cs by (auto split: option.splits)
    next
      case False
      then have "match_braces (c # cs) = None"
        using match_braces_no_close[of "c # cs"] True by simp
      then show ?thesis using True False by simp
    qed
  next
    case False
    then show ?thesis using Cons by simp
  qed
qed


section \<open>The extraction client: claim C2\<close>

lemma extract_object:
  assumes "extractTaskFromSpeech service transcript = Inr v"
  shows "\<exists>kvs. v = JObj kvs"
proof -
  from assms obtain raw m where "match_braces (trim raw) = Some m" and p: "JSON_parse m = Some v"
    unfolding extractTaskFromSpeech_def Let_def
    by (auto split: service_reply.splits option.splits)
  then obtain r where "m = CHR ''{'' # r" using match_braces_head by blast
  with p show ?thesis using JSON_parse_object by blast
qed

text \<open>
  C2, as the specification states it, asks for the first well-formed JSON object
  embedded in the reply. The client does not search for one: it parses the run from the
  first opening brace to the last closing brace as a single JSON text. On a reply
  that holds two objects the first object is well formed, yet the client throws.
\<close>

theorem first_json_object_counterexample:
  \<open>spec_first_json_object ''{"task":"Buy milk"} or {"task":"Buy silk"}''
     = Inr (JObj [(str ''task'', JStr (str ''Buy milk''))])
   \<and> extractTaskFromSpeech (\<lambda>t. Reply ''{"task":"Buy milk"} or {"task":"Buy silk"}'') ''buy milk''
     = Inl SyntaxError\<close>
  by code_simp

text \<open>
  C2, amended. For every reply of the service, the client parses the run of the trimmed
  reply from its first opening brace to its last closing brace as one JSON text and
  returns the value, so text around a single object is tolerated as long as the text
  before holds no opening brace and the text after no closing brace; a run that is not
  well-formed JSON throws the \<open>SyntaxError\<close> of \<open>JSON.parse\<close>. When no closing
  brace follows the first opening brace the client throws its own
  \<open>Could not parse AI response\<close> error. Whatever it returns is an object, so the
  not-a-task signal \<open>{"error": ...}\<close> of the service is a returned value and both
  failures are thrown errors, distinct from it.
\<close>

theorem extract_brace_span:
  assumes "service transcript = Reply raw"
  shows "(\<forall>pre mid suf.
            trim raw = pre @ CHR ''{'' # mid @ CHR ''}'' # suf \<and> CHR ''{'' \<notin> set pre
              \<and> CHR ''}'' \<notin> set suf \<longrightarrow>
            extractTaskFromSpeech service transcript =
              (case JSON_parse (CHR ''{'' # mid @ [CHR ''}'']) of
                 Some v \<Rightarrow> Inr v
               | None \<Rightarrow> Inl SyntaxError))
       \<and> (CHR ''}'' \<notin> set (dropWhile (\<lambda>c. c \<noteq> CHR ''{'') (trim raw)) \<longrightarrow>
            extractTaskFromSpeech service transcript = Inl CouldNotParse)
       \<and> (\<forall>v. extractTaskFromSpeech service transcript = Inr v \<longrightarrow> (\<exists>kvs. v = JObj kvs))"
proof (intro conjI allI impI)
  fix pre mid suf
  assume "trim raw = pre @ CHR ''{'' # mid @ CHR ''}'' # suf \<and> CHR ''{'' \<notin> set pre
              \<and> CHR ''}'' \<notin> set suf"
  then have "match_braces (trim raw) = Some (CHR ''{'' # mid @ [CHR ''}''])"
    using match_braces_span[of pre suf mid] by simp
  then show "extractTaskFromSpeech service transcript =
              (case JSON_parse (CHR ''{'' # mid @ [CHR ''}'']) of
                 Some v \<Rightarrow> Inr v
               | None \<Rightarrow> Inl SyntaxError)"
    using assms by (simp add: extractTaskFromSpeech_def)
next
  assume "CHR ''}'' \<notin> set (dropWhile (\<lambda>c. c \<noteq> CHR ''{'') (trim raw))"
  then have "match_braces (trim raw) = None" by (simp add: match_braces_none_iff)
  then show "extractTaskFromSpeech service transcript = Inl CouldNotParse"
    using assms by (simp add: extractTaskFromSpeech_def)
next
  fix v assume "extractTaskFromSpeech service transcript = Inr v"
  then show "\<exists>kvs. v = JObj kvs" by (rule extract_object)
qed

text \<open>C2, the amended statement at concrete replies: an object inside a sentence, a
  reply without a brace span, and the not-a-task signal.\<close>

theorem extract_brace_span_witness:
  \<open>extractTaskFromSpeech (\<lambda>t. Reply ''Here it is: {"task":"Buy milk"} Bye. '') ''buy milk''
     = Inr (JObj [(str ''task'', JStr (str ''Buy milk''))])
   \<and> extractTaskFromSpeech (\<lambda>t. Reply ''Sorry } no task {here'') ''hello'' = Inl CouldNotParse
   \<and> extractTaskFromSpeech (\<lambda>t. Reply ''{"error":"Could not understand task"}'') ''hello''
     = Inr (JObj [(str ''error'', JStr (str ''Could not understand task''))])\<close>
proof -
  have t1: \<open>trim ''Here it is: {"task":"Buy milk"} Bye. ''
      = ''Here it is: '' @ CHR ''{'' # ''"task":"Buy milk"'' @ CHR ''}'' # '' Bye.''
      \<and> CHR ''{'' \<notin> set ''Here it is: '' \<and> CHR ''}'' \<notin> set '' Bye.''\<close>
    by code_simp
  have p1: \<open>JSON_parse (CHR ''{'' # ''"task":"Buy milk"'' @ [CHR ''}''])
      = Some (JObj [(str ''task'', JStr (str ''Buy milk''))])\<close>
    by code_simp
  have a: \<open>extractTaskFromSpeech (\<lambda>t. Reply ''Here it is: {"task":"Buy milk"} Bye. '') ''buy milk''
     = Inr (JObj [(str ''task'', JStr (str ''Buy milk''))])\<close>
    using extract_brace_span[of "\<lambda>t. Reply ''Here it is: {\"task\":\"Buy milk\"} Bye. ''" "''buy milk''", OF refl] t1 p1
    by (metis option.simps(5))
  have t2: \<open>CHR ''}'' \<notin> set (dropWhile (\<lambda>c. c \<noteq> CHR ''{'') (trim ''Sorry } no task {here''))\<close>
    by code_simp
  have b: \<open>extractTaskFromSpeech (\<lambda>t. Reply ''Sorry } no task {here'') ''hello'' = Inl CouldNotParse\<close>
    using extract_brace_span[of \<open>\<lambda>t. Reply ''Sorry } no task {here''\<close> "''hello''", OF refl] t2
    by blast
  have c: \<open>extractTaskFromSpeech (\<lambda>t. Reply ''{"error":"Could not understand task"}'') ''hello''
     = Inr (JObj [(str ''error'', JStr (str ''Could not understand task''))])\<close>
    by code_simp
  show ?thesis using a b c by blast
qed


section \<open>Properties of the sort\<close>

text \<open>Insertion keeps the elements, and it sorts whenever the comparator agrees, on
  the elements at hand, with a total and transitive relation.\<close>

lemma set_insert_sorted: "set (insert_sorted c x xs) = insert x (set xs)"
  by (induction xs) auto

lemma set_sort_with: "set (sort_with c xs) = set xs"
  unfolding sort_with_def by (induction xs) (simp_all add: set_insert_sorted)

lemma sorted_insert_sorted:
  assumes le: "\<And>a b. a \<in> S \<Longrightarrow> b \<in> S \<Longrightarrow> (c a b \<le> 0) = R a b"
    and total: "\<And>a b. a \<in> S \<Longrightarrow> b \<in> S \<Longrightarrow> R a b \<or> R b a"
    and trans: "\<And>a b d. a \<in> S \<Longrightarrow> b \<in> S \<Longrightarrow> d \<in> S \<Longrightarrow> R a b \<Longrightarrow> R b d \<Longrightarrow> R a d"
    and x: "x \<in> S" and xs: "set xs \<subseteq> S" and sorted: "sorted_wrt R xs"
  shows "sorted_wrt R (insert_sorted c x xs)"
  using xs sorted
proof (induction xs)
  case Nil
  then show ?case by simp
next
  case (Cons y ys)
  then have y: "y \<in> S" and ys: "set ys \<subseteq> S" by auto
  show ?case
  proof (cases "c x y \<le> 0")
    case True
    then have xy: "R x y" using le[OF x y] by simp
    have "\<forall>z \<in> set ys. R x z"
    proof
      fix z assume z: "z \<in> set ys"
      then have "R y z" using Cons.prems(2) by simp
      then show "R x z" using trans[OF x y _ xy] z ys by blast
    qed
    then show ?thesis using True xy Cons.prems(2) by simp
  next
    case False
    then have "\<not> R x y" using le[OF x y] by simp
    then have yx: "R y x" using total[OF x y] by blast
    have "sorted_wrt R (insert_sorted c x ys)" using Cons.IH ys Cons.prems(2) by simp
    moreover have "\<forall>z \<in> set (insert_sorted c x ys). R y z"
      using yx Cons.prems(2) by (simp add: set_insert_sorted)
    ultimately show ?thesis using False by simp
  qed
qed

lemma sorted_sort_with:
  assumes le: "\<And>a b. a \<in> S \<Longrightarrow> b \<in> S \<Longrightarrow> (c a b \<le> 0) = R a b"
    and total: "\<And>a b. a \<in> S \<Longrightarrow> b \<in> S \<Longrightarrow> R a b \<or> R b a"
    and trans: "\<And>a b d. a \<in> S \<Longrightarrow> b \<in> S \<Longrightarrow> d \<in> S \<Longrightarrow> R a b \<Longrightarrow> R b d \<Longrightarrow> R a d"
    and xs: "set xs \<subseteq> S"
  shows "sorted_wrt R (sort_with c xs)"
  using xs
proof (induction xs)
  case Nil
  then show ?case by (simp add: sort_with_def)
next
  case (Cons x xs)
  then have x: "x \<in> S" and s: "set (sort_with c xs) \<subseteq> S" by (auto simp: set_sort_with)
  have "sorted_wrt R (sort_with c xs)" using Cons by simp
  from sorted_insert_sorted[of S c R, OF le total trans x s this]
  show ?case by (simp add: sort_with_def)
qed


section \<open>Upcoming tasks: claims C3 to C6\<close>

lemma set_dueTasks:
  "set (dueTasks h now now' days tasks)
     = {t \<in> set tasks. dueFilter h now (setDate_plus h now' days) t}"
  by (simp add: dueTasks_def set_sort_with)

lemma priorityRank_own:
  "toLowerCase p \<notin> set Object_prototype_keys \<Longrightarrow> priorityRank p = Num (spec_rank p)"
  by (simp add: priorityRank_def priorityOrder_def spec_rank_def)

lemma dueFilter_parse:
  "dueFilter h now cutoff t \<Longrightarrow> \<exists>d. Date_parse h (dueDate t) = Some d"
  by (auto simp: dueFilter_def split: if_splits option.splits)

lemma setDate_plus_fixed_offset:
  "(\<And>t u. LocalTZA h t u = z) \<Longrightarrow> setDate_plus h t days = TimeClip (t + days * msPerDay)"
  by (simp add: setDate_plus_def UTC_def LocalTime_def)

text \<open>
  The comparator orders the tasks as the specification describes whenever no priority,
  in lower case, names a member of \<open>Object.prototype\<close>.
\<close>

lemma dueTasks_sorted_own_keys:
  assumes own: "\<forall>t \<in> set tasks. toLowerCase (priority t) \<notin> set Object_prototype_keys"
  shows "sorted_wrt (spec_before h) (dueTasks h now now' days tasks)"
proof -
  let ?S = "{t \<in> set tasks. dueFilter h now (setDate_plus h now' days) t}"
  have p: "\<And>a. a \<in> ?S \<Longrightarrow> \<exists>d. Date_parse h (dueDate a) = Some d"
    using dueFilter_parse by blast
  have r: "\<And>a. a \<in> ?S \<Longrightarrow> priorityRank (priority a) = Num (spec_rank (priority a))"
    using own priorityRank_own by simp
  have le: "\<And>a b. a \<in> ?S \<Longrightarrow> b \<in> ?S \<Longrightarrow>
      (SortCompare (compareTasks h) a b \<le> 0) = spec_before h a b"
  proof -
    fix a b assume a: "a \<in> ?S" and b: "b \<in> ?S"
    from p[OF a] p[OF b] obtain x y where
      "Date_parse h (dueDate a) = Some x" "Date_parse h (dueDate b) = Some y" by blast
    then show "(SortCompare (compareTasks h) a b \<le> 0) = spec_before h a b"
      using r[OF a] r[OF b]
      by (auto simp: SortCompare_def compareTasks_def spec_before_def Let_def)
  qed
  have total: "\<And>a b. a \<in> ?S \<Longrightarrow> b \<in> ?S \<Longrightarrow> spec_before h a b \<or> spec_before h b a"
  proof -
    fix a b assume a: "a \<in> ?S" and b: "b \<in> ?S"
    from p[OF a] p[OF b] obtain x y where
      "Date_parse h (dueDate a) = Some x" "Date_parse h (dueDate b) = Some y" by blast
    then show "spec_before h a b \<or> spec_before h b a"
      by (auto simp: spec_before_def)
  qed
  have trans: "\<And>a b d. a \<in> ?S \<Longrightarrow> b \<in> ?S \<Longrightarrow> d \<in> ?S \<Longrightarrow>
      spec_before h a b \<Longrightarrow> spec_before h b d \<Longrightarrow> spec_before h a d"
    by (auto simp: spec_before_def split: option.splits)
  have "sorted_wrt (spec_before h)
          (sort_with (SortCompare (compareTasks h))
             (filter (dueFilter h now (setDate_plus h now' days)) tasks))"
    by (rule sorted_sort_with[of ?S, OF le total trans]) auto
  then show ?thesis by (simp add: dueTasks_def)
qed

text \<open>
  C3 says that the result is ordered by priority rank, every string other than the
  three levels ranking as Medium. The comparator defaults through \<open>?? 1\<close>, which
  misses the keys \<open>priorityOrder\<close> inherits: for the priority \<open>constructor\<close> the
  lookup yields a function, the difference of ranks is \<open>NaN\<close>, and the sort treats the
  task as equal to every task of another rank. Here a task of rank Medium by the
  specification stays in front of a High one.
\<close>

theorem priority_constructor_breaks_order:
  "dueTasks utc_host 1739000000000 1739000000000 5
     [\<lparr>rowIndex = 2, task = ''Renew passport'', priority = ''constructor'',
       status = ''Not Started'', dueDate = ''2025-02-11''\<rparr>,
      \<lparr>rowIndex = 3, task = ''Finish Q3 report'', priority = ''High'',
       status = ''Not Started'', dueDate = ''2025-02-10''\<rparr>]
   = [\<lparr>rowIndex = 2, task = ''Renew passport'', priority = ''constructor'',
       status = ''Not Started'', dueDate = ''2025-02-11''\<rparr>,
      \<lparr>rowIndex = 3, task = ''Finish Q3 report'', priority = ''High'',
       status = ''Not Started'', dueDate = ''2025-02-10''\<rparr>]
   \<and> spec_rank ''constructor'' = 1 \<and> spec_rank ''High'' = 0
   \<and> priorityRank ''constructor'' = Inherited ''constructor''"
  by code_simp

text \<open>
  C4. A task whose status is, without regard to case, \<open>completed\<close> or \<open>done\<close> is
  not in the result, whatever its due date, the clock and the window are.
\<close>

theorem completed_excluded:
  assumes "toLowerCase (status t) = ''completed'' \<or> toLowerCase (status t) = ''done''"
  shows "t \<notin> set (dueTasks h now now' days tasks)
       \<and> t \<notin> set (getUpcomingTasks h now now' window response)"
  using assms by (auto simp: getUpcomingTasks_def set_dueTasks dueFilter_def)

text \<open>C4 at a completed task that is due inside the window.\<close>

theorem completed_excluded_witness:
  "toLowerCase (status \<lparr>rowIndex = 2, task = ''Review PRs'', priority = ''High'',
       status = ''Completed'', dueDate = ''2025-02-09''\<rparr>) = ''completed''
   \<and> \<lparr>rowIndex = 2, task = ''Review PRs'', priority = ''High'',
       status = ''Completed'', dueDate = ''2025-02-09''\<rparr>
      \<notin> set (dueTasks utc_host 1739000000000 1739000000000 5
          [\<lparr>rowIndex = 2, task = ''Review PRs'', priority = ''High'',
            status = ''Completed'', dueDate = ''2025-02-09''\<rparr>])"
proof -
  have h: "toLowerCase (status \<lparr>rowIndex = 2, task = ''Review PRs'', priority = ''High'',
       status = ''Completed'', dueDate = ''2025-02-09''\<rparr>) = ''completed''"
    by code_simp
  show ?thesis using h completed_excluded[OF disjI1[OF h]] by blast
qed

text \<open>
  C5 says that the window ends at the reference instant plus \<open>windowDays\<close> days. The
  cutoff is made by \<open>setDate\<close>, which keeps the local time of day and moves the
  calendar date, so where the offset of the zone changes in between it is not
  \<open>windowDays\<close> times 24 hours away. On the Mountain Time host the clock reads
  2025-03-08T00:30Z, 17:30 local on 7 March; five calendar days later, after the change
  of 9 March, 17:30 local is 2025-03-12T23:30Z. A task due 2025-03-13 (midnight UTC) is
  not before the reading and not after the reading plus five days, and is left out.
\<close>

theorem due_window_dst_counterexample:
  "toLowerCase (status \<lparr>rowIndex = 2, task = ''File taxes'', priority = ''High'',
       status = ''Not Started'', dueDate = ''2025-03-13''\<rparr>) \<noteq> ''completed''
   \<and> toLowerCase (status \<lparr>rowIndex = 2, task = ''File taxes'', priority = ''High'',
       status = ''Not Started'', dueDate = ''2025-03-13''\<rparr>) \<noteq> ''done''
   \<and> Date_parse mountain_host ''2025-03-13'' = Some 1741824000000
   \<and> (1741393800000 :: int) \<le> 1741824000000
   \<and> (1741824000000 :: int) \<le> 1741393800000 + 5 * 86400000
   \<and> \<lparr>rowIndex = 2, task = ''File taxes'', priority = ''High'',
       status = ''Not Started'', dueDate = ''2025-03-13''\<rparr>
      \<notin> set (dueTasks mountain_host 1741393800000 1741393800000 5
          [\<lparr>rowIndex = 2, task = ''File taxes'', priority = ''High'',
            status = ''Not Started'', dueDate = ''2025-03-13''\<rparr>])
   \<and> getUpcomingTasks mountain_host 1741393800000 1741393800000 None
        (Some [[''File taxes'', ''High'', ''Not Started'', ''2025-03-13'']]) = []"
  by code_simp

text \<open>
  C5, amended. A task that is not completed and whose due date parses, to \<open>due\<close>, is
  in the result exactly when \<open>now \<le> due\<close> and \<open>due \<le> cutoff\<close>, both bounds
  included, and the cutoff is a date in range. The cutoff is the clock reading moved
  \<open>days\<close> calendar days ahead at the same local time of day: the reading plus the
  zone offset at the reading, plus \<open>days\<close> times 86400000 ms, minus the zone offset
  at that local time. Where the offset is constant this is the reading plus \<open>days\<close>
  times 24 hours. The same holds of \<open>getUpcomingTasks\<close> for the tasks read from the
  sheet, with 5 days when the argument is omitted. (\<open>now\<close> and \<open>now'\<close> are the two
  readings of the clock, for the lower bound and for the cutoff.)
\<close>

theorem due_window_calendar_days:
  assumes "toLowerCase (status t) \<noteq> ''completed''" and "toLowerCase (status t) \<noteq> ''done''"
    and "dueDate t \<noteq> []" and "Date_parse h (dueDate t) = Some due"
  shows "(t \<in> set tasks \<longrightarrow>
            (t \<in> set (dueTasks h now now' days tasks)) =
            (let e = now' + LocalTZA h now' True + days * 86400000;
                 c = e - LocalTZA h e False
             in now \<le> due \<and> due \<le> c \<and> \<bar>c\<bar> \<le> 8640000000000000))
       \<and> (t \<in> set tasks \<and> (\<forall>x u. LocalTZA h x u = z) \<longrightarrow>
            (t \<in> set (dueTasks h now now' days tasks)) =
            (now \<le> due \<and> due \<le> now' + days * 86400000
             \<and> \<bar>now' + days * 86400000\<bar> \<le> 8640000000000000))
       \<and> (t \<in> set (readTasks response) \<longrightarrow>
            (t \<in> set (getUpcomingTasks h now now' window response)) =
            (let e = now' + LocalTZA h now' True
                       + (case window of None \<Rightarrow> 5 | Some d \<Rightarrow> d) * 86400000;
                 c = e - LocalTZA h e False
             in now \<le> due \<and> due \<le> c \<and> \<bar>c\<bar> \<le> 8640000000000000))"
proof -
  have f: "\<And>n d. dueFilter h n (setDate_plus h now' d) t =
      (let e = now' + LocalTZA h now' True + d * 86400000; c = e - LocalTZA h e False
       in n \<le> due \<and> due \<le> c \<and> \<bar>c\<bar> \<le> 8640000000000000)"
    using assms
    by (auto simp: dueFilter_def setDate_plus_def TimeClip_def UTC_def LocalTime_def
        msPerDay_def Let_def)
  show ?thesis
    by (auto simp: set_dueTasks getUpcomingTasks_def f Let_def)
qed

text \<open>C5, the amended statement on the UTC host with the clock at midnight UTC of
  2025-02-08 and the sheet read without a window argument: the task due at the cutoff
  itself, 2025-02-13, is in the result, and the task due the day after is not.\<close>

theorem due_window_calendar_days_witness:
  "\<lparr>rowIndex = 2, task = ''Finish Q3 report'', priority = ''High'',
     status = ''Not Started'', dueDate = ''2025-02-13''\<rparr>
     \<in> set (getUpcomingTasks utc_host 1738972800000 1738972800000 None
          (Some [[''Finish Q3 report'', ''High'', ''Not Started'', ''2025-02-13''],
                 [''Team sync prep'', ''Low'', ''In Progress'', ''2025-02-14'']]))
   \<and> \<lparr>rowIndex = 3, task = ''Team sync prep'', priority = ''Low'',
       status = ''In Progress'', dueDate = ''2025-02-14''\<rparr>
     \<notin> set (getUpcomingTasks utc_host 1738972800000 1738972800000 None
          (Some [[''Finish Q3 report'', ''High'', ''Not Started'', ''2025-02-13''],
                 [''Team sync prep'', ''Low'', ''In Progress'', ''2025-02-14'']]))
   \<and> \<lparr>rowIndex = 2, task = ''Finish Q3 report'', priority = ''High'',
       status = ''Not Started'', dueDate = ''2025-02-13''\<rparr>
     \<in> set (dueTasks utc_host 1738972800000 1738972800000 5
          [\<lparr>rowIndex = 2, task = ''Finish Q3 report'', priority = ''High'',
            status = ''Not Started'', dueDate = ''2025-02-13''\<rparr>])"
proof -
  let ?a = "\<lparr>rowIndex = 2, task = ''Finish Q3 report'', priority = ''High'',
            status = ''Not Started'', dueDate = ''2025-02-13''\<rparr>"
  let ?b = "\<lparr>rowIndex = 3, task = ''Team sync prep'', priority = ''Low'',
            status = ''In Progress'', dueDate = ''2025-02-14''\<rparr>"
  let ?rows = "Some [[''Finish Q3 report'', ''High'', ''Not Started'', ''2025-02-13''],
                     [''Team sync prep'', ''Low'', ''In Progress'', ''2025-02-14'']]"
  have r: "readTasks ?rows = [?a, ?b]" by code_simp
  have z: "\<forall>x u. LocalTZA utc_host x u = 0" by (simp add: utc_host_def)
  have a2: "toLowerCase (status ?a) \<noteq> ''completed''" by code_simp
  have a3: "toLowerCase (status ?a) \<noteq> ''done''" by code_simp
  have a4: "dueDate ?a \<noteq> []" by simp
  have a5: "Date_parse utc_host (dueDate ?a) = Some 1739404800000" by code_simp
  have b2: "toLowerCase (status ?b) \<noteq> ''completed''" by code_simp
  have b3: "toLowerCase (status ?b) \<noteq> ''done''" by code_simp
  have b4: "dueDate ?b \<noteq> []" by simp
  have b5: "Date_parse utc_host (dueDate ?b) = Some 1739491200000" by code_simp
  note ta = due_window_calendar_days[OF a2 a3 a4 a5,
      of "[?a]" 1738972800000 1738972800000 5 0 ?rows None]
  note tb = due_window_calendar_days[OF b2 b3 b4 b5,
      of "[?b]" 1738972800000 1738972800000 5 0 ?rows None]
  have "?a \<in> set (getUpcomingTasks utc_host 1738972800000 1738972800000 None ?rows)"
    using ta z unfolding r by (simp add: Let_def)
  moreover have "?b \<notin> set (getUpcomingTasks utc_host 1738972800000 1738972800000 None ?rows)"
    using tb z unfolding r by (simp add: Let_def)
  moreover have "?a \<in> set (dueTasks utc_host 1738972800000 1738972800000 5 [?a])"
    using ta z by simp
  ultimately show ?thesis by blast
qed

text \<open>
  C6. A task whose due date is empty, or is a string that does not parse, is not in the
  result. The filter has no failing branch: an invalid date makes both comparisons
  false, and the function returns its list for every input.
\<close>

theorem unparseable_excluded:
  assumes "dueDate t = [] \<or> Date_parse h (dueDate t) = None"
  shows "t \<notin> set (dueTasks h now now' days tasks)
       \<and> t \<notin> set (getUpcomingTasks h now now' window response)"
  using assms by (auto simp: getUpcomingTasks_def set_dueTasks dueFilter_def)

text \<open>C6 at the due dates \<open>next Wednesday\<close> and the empty string.\<close>

theorem unparseable_excluded_witness:
  "Date_parse utc_host (dueDate \<lparr>rowIndex = 2, task = ''Call the bank'', priority = ''High'',
       status = ''Not Started'', dueDate = ''next Wednesday''\<rparr>) = None
   \<and> \<lparr>rowIndex = 2, task = ''Call the bank'', priority = ''High'',
       status = ''Not Started'', dueDate = ''next Wednesday''\<rparr>
      \<notin> set (dueTasks utc_host 1739000000000 1739000000000 5
          [\<lparr>rowIndex = 2, task = ''Call the bank'', priority = ''High'',
            status = ''Not Started'', dueDate = ''next Wednesday''\<rparr>])
   \<and> \<lparr>rowIndex = 3, task = ''Team sync prep'', priority = ''Low'',
       status = ''Not Started'', dueDate = []\<rparr>
      \<notin> set (dueTasks utc_host 1739000000000 1739000000000 5
          [\<lparr>rowIndex = 3, task = ''Team sync prep'', priority = ''Low'',
            status = ''Not Started'', dueDate = []\<rparr>])"
proof -
  have h: "Date_parse utc_host (dueDate \<lparr>rowIndex = 2, task = ''Call the bank'', priority = ''High'',
       status = ''Not Started'', dueDate = ''next Wednesday''\<rparr>) = None"
    by code_simp
  have e: "dueDate \<lparr>rowIndex = 3, task = ''Team sync prep'', priority = ''Low'',
       status = ''Not Started'', dueDate = []\<rparr> = []"
    by simp
  show ?thesis
    using h unparseable_excluded[OF disjI2[OF h]] unparseable_excluded[OF disjI1[OF e]] by blast
qed


section \<open>The voice dialog: claims C1, C7, C8 and C10\<close>

text \<open>
  C1 says that on both entries, the inbound greeting and the branch taken with 1 after
  the briefing, a draft is held for confirmation before it is stored. After the
  briefing the caller is recorded, the call ends with \<open>process_task\<close>, and the
  transcript arrives later at the transcription callback, which appends the draft at
  once: no pending draft, no confirmation.
\<close>

theorem transcription_appends_unconfirmed_counterexample:
  \<open>morning_choice utc_host (Some ''1'')
     = [Say [Lit ''Tell me about the task you'd like to add. Include the task name, priority if you have one, and when it's due.''],
        Record ''https://tasks.example/voice/process-task''
               (Some ''https://tasks.example/voice/transcription-callback'')]
   \<and> transcription_callback
        (\<lambda>t. Reply ''{"task":"Buy milk","priority":"High","status":"Not Started","dueDate":"2025-02-10"}'')
        (Some ''buy milk by Monday, high priority'') True \<lparr>pendingTask = None, sheet = []\<rparr>
      = \<lparr>pendingTask = None,
         sheet = [[Some (JStr (str ''Buy milk'')), Some (JStr (str ''High'')),
                   Some (JStr (str ''Not Started'')), Some (JStr (str ''2025-02-10''))]]\<rparr>\<close>
  by code_simp

text \<open>
  C1, amended. For every turn that delivers a non-empty transcript to
  \<open>/voice/process-speech\<close>, the route the inbound greeting gathers into, and whose
  draft is extracted without an \<open>error\<close> member: when the read-back can be built,
  the draft is stored as pending and read back, followed by the choice gathered into
  \<open>/voice/confirm-task\<close>; when building the read-back throws (converting
  \<open>dueDate\<close>, \<open>task\<close> or \<open>priority\<close> throws, or the TwiML library refuses the
  text), the turn apologises, redirects to the capture prompt and stores nothing. In
  both cases the turn leaves the sheet as it was. The transcription callback of the
  branch after the briefing appends such a draft directly when the store accepts it,
  and leaves the pending slot alone.
\<close>

theorem speech_draft_held_for_confirmation:
  assumes "SpeechResult = Some transcript" and "transcript \<noteq> []"
    and "extractTaskFromSpeech service transcript = Inr taskData"
    and "\<not> ToBoolean (field taskData ''error'')"
  shows "(\<not> (conversion_throws (field taskData ''dueDate'')
              \<or> conversion_throws (field taskData ''task'')
              \<or> conversion_throws (field taskData ''priority'')
              \<or> say_refuses h
                   [Lit ''Got it. Here's what I heard: '', Val (field taskData ''task''),
                    Lit ''. Priority: '', Val (field taskData ''priority''),
                    Lit ''. Due: '', DateOfVal (field taskData ''dueDate''), Lit ''.'']) \<longrightarrow>
            process_speech h service SpeechResult w
              = ([Say [Lit ''Got it. Here's what I heard: '', Val (field taskData ''task''),
                       Lit ''. Priority: '', Val (field taskData ''priority''),
                       Lit ''. Due: '', DateOfVal (field taskData ''dueDate''), Lit ''.''],
                  Gather ''speech dtmf'' (BASE_URL h @ ''/voice/confirm-task'')
                    [Say [Lit ''Press 1 or say yes to confirm. Press 2 or say no to try again.'']],
                  Say [Lit ''I'll save that for you.''],
                  Redirect (BASE_URL h @ ''/voice/auto-confirm'')],
                 \<lparr>pendingTask = Some taskData, sheet = sheet w\<rparr>))
       \<and> (conversion_throws (field taskData ''dueDate'')
            \<or> conversion_throws (field taskData ''task'')
            \<or> conversion_throws (field taskData ''priority'')
            \<or> say_refuses h
                 [Lit ''Got it. Here's what I heard: '', Val (field taskData ''task''),
                  Lit ''. Priority: '', Val (field taskData ''priority''),
                  Lit ''. Due: '', DateOfVal (field taskData ''dueDate''), Lit ''.''] \<longrightarrow>
            process_speech h service SpeechResult w
              = ([Say [Lit ''I had trouble processing that. Let's try again.''],
                  Redirect (BASE_URL h @ ''/voice/inbound-speech'')],
                 w))
       \<and> transcription_callback service (Some transcript) ok w
           = \<lparr>pendingTask = pendingTask w,
              sheet = (if ok then sheet w @ [row_values taskData] else sheet w)\<rparr>"
proof -
  from assms(2) obtain c cs where t: "transcript = c # cs" by (cases transcript) auto
  have p: "process_speech h service SpeechResult w =
      (if readback_throws h taskData
       then ([Say [Lit ''I had trouble processing that. Let's try again.''],
              Redirect (BASE_URL h @ ''/voice/inbound-speech'')], w)
       else ([Say (readback taskData),
              Gather ''speech dtmf'' (BASE_URL h @ ''/voice/confirm-task'')
                [Say [Lit ''Press 1 or say yes to confirm. Press 2 or say no to try again.'']],
              Say [Lit ''I'll save that for you.''],
              Redirect (BASE_URL h @ ''/voice/auto-confirm'')],
             w\<lparr>pendingTask := Some taskData\<rparr>))"
    using assms(1,3,4) unfolding t by (simp add: process_speech_def)
  have c: "transcription_callback service (Some transcript) ok w
           = \<lparr>pendingTask = pendingTask w,
              sheet = (if ok then sheet w @ [row_values taskData] else sheet w)\<rparr>"
    using assms(3,4) unfolding t by (simp add: transcription_callback_def addTask_def)
  show ?thesis
    unfolding p using c by (simp add: readback_throws_def readback_def)
qed

text \<open>C1, the amended statement at three replies: a complete draft, which is held for
  confirmation; a draft whose \<open>task\<close> is an object with a member \<open>toString\<close>,
  whose conversion throws; and a draft whose \<open>task\<close> holds the control character
  U+0008, which the builder of the host refuses. The last two end in the apology with
  nothing pending.\<close>

theorem speech_draft_held_for_confirmation_witness:
  \<open>process_speech utc_host
       (\<lambda>t. Reply ''{"task":"Buy milk","priority":"High","status":"Not Started","dueDate":"2025-02-10"}'')
       (Some ''buy milk by Monday, high priority'') \<lparr>pendingTask = None, sheet = []\<rparr>
     = ([Say [Lit ''Got it. Here's what I heard: '', Val (Some (JStr (str ''Buy milk''))),
              Lit ''. Priority: '', Val (Some (JStr (str ''High''))),
              Lit ''. Due: '', DateOfVal (Some (JStr (str ''2025-02-10''))), Lit ''.''],
         Gather ''speech dtmf'' ''https://tasks.example/voice/confirm-task''
           [Say [Lit ''Press 1 or say yes to confirm. Press 2 or say no to try again.'']],
         Say [Lit ''I'll save that for you.''],
         Redirect ''https://tasks.example/voice/auto-confirm''],
        \<lparr>pendingTask = Some (JObj [(str ''task'', JStr (str ''Buy milk'')),
                                   (str ''priority'', JStr (str ''High'')),
                                   (str ''status'', JStr (str ''Not Started'')),
                                   (str ''dueDate'', JStr (str ''2025-02-10''))]),
         sheet = []\<rparr>)
   \<and> process_speech utc_host
       (\<lambda>t. Reply ''{"task":{"toString":1},"priority":"High","dueDate":"2025-02-10"}'')
       (Some ''buy milk'') \<lparr>pendingTask = None, sheet = []\<rparr>
     = ([Say [Lit ''I had trouble processing that. Let's try again.''],
         Redirect ''https://tasks.example/voice/inbound-speech''],
        \<lparr>pendingTask = None, sheet = []\<rparr>)
   \<and> process_speech utc_host
       (\<lambda>t. Reply (''{"task":"Buy '' @ [CHR 0x5C] @ ''u0008milk","priority":"High","dueDate":"2025-02-10"}''))
       (Some ''buy milk'') \<lparr>pendingTask = None, sheet = []\<rparr>
     = ([Say [Lit ''I had trouble processing that. Let's try again.''],
         Redirect ''https://tasks.example/voice/inbound-speech''],
        \<lparr>pendingTask = None, sheet = []\<rparr>)\<close>
proof -
  let ?w = "\<lparr>pendingTask = None, sheet = []\<rparr>"
  have u: "BASE_URL utc_host = ''https://tasks.example''" by (simp add: utc_host_def)
  have sr: "say_refuses utc_host = xml_refuses" by (simp add: utc_host_def)

  let ?s1 = \<open>\<lambda>t::string. Reply ''{"task":"Buy milk","priority":"High","status":"Not Started","dueDate":"2025-02-10"}''\<close>
  let ?d1 = "JObj [(str ''task'', JStr (str ''Buy milk'')),
                  (str ''priority'', JStr (str ''High'')),
                  (str ''status'', JStr (str ''Not Started'')),
                  (str ''dueDate'', JStr (str ''2025-02-10''))]"
  have n1: "''buy milk by Monday, high priority'' \<noteq> []" by simp
  have x1: "extractTaskFromSpeech ?s1 ''buy milk by Monday, high priority'' = Inr ?d1"
    by code_simp
  have e1: "\<not> ToBoolean (field ?d1 ''error'')" by code_simp
  have f1: "field ?d1 ''task'' = Some (JStr (str ''Buy milk''))" by code_simp
  have f2: "field ?d1 ''priority'' = Some (JStr (str ''High''))" by code_simp
  have f3: "field ?d1 ''dueDate'' = Some (JStr (str ''2025-02-10''))" by code_simp
  have g1: "\<not> (conversion_throws (Some (JStr (str ''2025-02-10'')))
              \<or> conversion_throws (Some (JStr (str ''Buy milk'')))
              \<or> conversion_throws (Some (JStr (str ''High'')))
              \<or> xml_refuses
                   [Lit ''Got it. Here's what I heard: '', Val (Some (JStr (str ''Buy milk''))),
                    Lit ''. Priority: '', Val (Some (JStr (str ''High''))),
                    Lit ''. Due: '', DateOfVal (Some (JStr (str ''2025-02-10''))), Lit ''.''])"
    by (simp add: conversion_throws_def xml_refuses_def str_def)
  note t1 = speech_draft_held_for_confirmation[OF refl n1 x1 e1, of utc_host ?w True]
  have a: "process_speech utc_host ?s1 (Some ''buy milk by Monday, high priority'') ?w
     = ([Say [Lit ''Got it. Here's what I heard: '', Val (Some (JStr (str ''Buy milk''))),
              Lit ''. Priority: '', Val (Some (JStr (str ''High''))),
              Lit ''. Due: '', DateOfVal (Some (JStr (str ''2025-02-10''))), Lit ''.''],
         Gather ''speech dtmf'' ''https://tasks.example/voice/confirm-task''
           [Say [Lit ''Press 1 or say yes to confirm. Press 2 or say no to try again.'']],
         Say [Lit ''I'll save that for you.''],
         Redirect ''https://tasks.example/voice/auto-confirm''],
        \<lparr>pendingTask = Some ?d1, sheet = []\<rparr>)"
    using mp[OF t1[unfolded f1 f2 f3 u sr, THEN conjunct1] g1] by (simp del: field.simps)

  let ?s2 = \<open>\<lambda>t::string. Reply ''{"task":{"toString":1},"priority":"High","dueDate":"2025-02-10"}''\<close>
  let ?d2 = "JObj [(str ''task'', JObj [(str ''toString'', JNum 1 0)]),
                  (str ''priority'', JStr (str ''High'')),
                  (str ''dueDate'', JStr (str ''2025-02-10''))]"
  have n2: "''buy milk'' \<noteq> []" by simp
  have x2: "extractTaskFromSpeech ?s2 ''buy milk'' = Inr ?d2" by code_simp
  have e2: "\<not> ToBoolean (field ?d2 ''error'')" by code_simp
  have g2: "conversion_throws (field ?d2 ''task'')" by code_simp
  note t2 = speech_draft_held_for_confirmation[OF refl n2 x2 e2, of utc_host ?w True]
  have b: "process_speech utc_host ?s2 (Some ''buy milk'') ?w
     = ([Say [Lit ''I had trouble processing that. Let's try again.''],
         Redirect ''https://tasks.example/voice/inbound-speech''], ?w)"
    using mp[OF t2[unfolded u, THEN conjunct2, THEN conjunct1] disjI2[OF disjI1[OF g2]]]
    by (simp del: field.simps)

  let ?s3 = \<open>\<lambda>t::string. Reply (''{"task":"Buy '' @ [CHR 0x5C] @ ''u0008milk","priority":"High","dueDate":"2025-02-10"}'')\<close>
  let ?d3 = "JObj [(str ''task'', JStr (str ''Buy '' @ [8] @ str ''milk'')),
                  (str ''priority'', JStr (str ''High'')),
                  (str ''dueDate'', JStr (str ''2025-02-10''))]"
  have x3: "extractTaskFromSpeech ?s3 ''buy milk'' = Inr ?d3" by code_simp
  have e3: "\<not> ToBoolean (field ?d3 ''error'')" by code_simp
  have h1: "field ?d3 ''task'' = Some (JStr (str ''Buy '' @ [8] @ str ''milk''))" by code_simp
  have h2: "field ?d3 ''priority'' = Some (JStr (str ''High''))" by code_simp
  have h3: "field ?d3 ''dueDate'' = Some (JStr (str ''2025-02-10''))" by code_simp
  have g3: "xml_refuses
              [Lit ''Got it. Here's what I heard: '',
               Val (Some (JStr (str ''Buy '' @ [8] @ str ''milk''))),
               Lit ''. Priority: '', Val (Some (JStr (str ''High''))),
               Lit ''. Due: '', DateOfVal (Some (JStr (str ''2025-02-10''))), Lit ''.'']"
    by (simp add: xml_refuses_def str_def)
  note t3 = speech_draft_held_for_confirmation[OF refl n2 x3 e3, of utc_host ?w True]
  have c: "process_speech utc_host ?s3 (Some ''buy milk'') ?w
     = ([Say [Lit ''I had trouble processing that. Let's try again.''],
         Redirect ''https://tasks.example/voice/inbound-speech''], ?w)"
    using mp[OF t3[unfolded h1 h2 h3 u sr, THEN conjunct2, THEN conjunct1]
          disjI2[OF disjI2[OF disjI2[OF g3]]]]
    by (simp del: field.simps)

  show ?thesis by (intro conjI) (rule a, rule b, rule c)
qed

text \<open>
  C7. With a draft pending and a confirmation turn that carries neither signal, also on
  the path of the timeout (\<open>auto_confirm\<close>), the handler appends the draft once, says
  that the task is saved, hangs up and clears the slot. \<open>ok\<close> is the answer of the
  store: when it accepts, the sheet gains exactly that one row.
\<close>

theorem implicit_accept_persists_once:
  assumes "pending w = Some d"
    and "\<not> confirmed Digits SpeechResult" and "\<not> denied Digits SpeechResult"
  shows "confirm_task h Digits SpeechResult ok w
           = ([Say [Lit ''Task saved! Have a great day Jason!''], Hangup],
              \<lparr>pendingTask = None,
               sheet = (if ok then sheet w @ [row_values d] else sheet w)\<rparr>)
       \<and> auto_confirm ok w
           = ([Say [Lit ''Task saved! Have a great day Jason!''], Hangup],
              \<lparr>pendingTask = None,
               sheet = (if ok then sheet w @ [row_values d] else sheet w)\<rparr>)"
  using assms by (simp add: confirm_task_def auto_confirm_def addTask_def)

text \<open>C7 at the answer \<open>maybe later\<close> and at the timeout, with a draft pending.\<close>

theorem implicit_accept_persists_once_witness:
  "pending \<lparr>pendingTask = Some (JObj [(str ''task'', JStr (str ''Buy milk'')),
                                       (str ''priority'', JStr (str ''High'')),
                                       (str ''status'', JStr (str ''Not Started'')),
                                       (str ''dueDate'', JStr (str ''2025-02-10''))]),
            sheet = []\<rparr>
     = Some (JObj [(str ''task'', JStr (str ''Buy milk'')),
                   (str ''priority'', JStr (str ''High'')),
                   (str ''status'', JStr (str ''Not Started'')),
                   (str ''dueDate'', JStr (str ''2025-02-10''))])
   \<and> \<not> confirmed None (Some ''maybe later'') \<and> \<not> denied None (Some ''maybe later'')
   \<and> confirm_task utc_host None (Some ''maybe later'') True
        \<lparr>pendingTask = Some (JObj [(str ''task'', JStr (str ''Buy milk'')),
                                   (str ''priority'', JStr (str ''High'')),
                                   (str ''status'', JStr (str ''Not Started'')),
                                   (str ''dueDate'', JStr (str ''2025-02-10''))]),
         sheet = []\<rparr>
      = ([Say [Lit ''Task saved! Have a great day Jason!''], Hangup],
         \<lparr>pendingTask = None,
          sheet = [[Some (JStr (str ''Buy milk'')), Some (JStr (str ''High'')),
                    Some (JStr (str ''Not Started'')), Some (JStr (str ''2025-02-10''))]]\<rparr>)
   \<and> auto_confirm True
        \<lparr>pendingTask = Some (JObj [(str ''task'', JStr (str ''Buy milk'')),
                                   (str ''priority'', JStr (str ''High'')),
                                   (str ''status'', JStr (str ''Not Started'')),
                                   (str ''dueDate'', JStr (str ''2025-02-10''))]),
         sheet = []\<rparr>
      = ([Say [Lit ''Task saved! Have a great day Jason!''], Hangup],
         \<lparr>pendingTask = None,
          sheet = [[Some (JStr (str ''Buy milk'')), Some (JStr (str ''High'')),
                    Some (JStr (str ''Not Started'')), Some (JStr (str ''2025-02-10''))]]\<rparr>)"
proof -
  let ?d = "JObj [(str ''task'', JStr (str ''Buy milk'')),
                  (str ''priority'', JStr (str ''High'')),
                  (str ''status'', JStr (str ''Not Started'')),
                  (str ''dueDate'', JStr (str ''2025-02-10''))]"
  have p: "pending \<lparr>pendingTask = Some ?d, sheet = []\<rparr> = Some ?d"
    by (simp add: pending_def)
  have c: "\<not> confirmed None (Some ''maybe later'')" by code_simp
  have d: "\<not> denied None (Some ''maybe later'')" by code_simp
  have r: "row_values ?d = [Some (JStr (str ''Buy milk'')), Some (JStr (str ''High'')),
                    Some (JStr (str ''Not Started'')), Some (JStr (str ''2025-02-10''))]"
    by code_simp
  show ?thesis
    using p c d implicit_accept_persists_once[OF p c d, of utc_host True]
    by (simp add: r)
qed

text \<open>
  C8. A confirmation turn with a reject signal and no accept signal clears the pending
  slot, leaves the sheet as it was and redirects to \<open>/voice/inbound-speech\<close>, the
  prompt that captures speech.
\<close>

theorem reject_clears_draft:
  assumes "\<not> confirmed Digits SpeechResult" and "denied Digits SpeechResult"
  shows "confirm_task h Digits SpeechResult ok w
           = ([Say [Lit ''No problem. Let's try again.''],
               Redirect (BASE_URL h @ ''/voice/inbound-speech'')],
              w\<lparr>pendingTask := None\<rparr>)"
  using assms by (simp add: confirm_task_def split: option.splits bool.splits)

text \<open>C8 at the answer \<open>No, cancel that\<close>.\<close>

theorem reject_clears_draft_witness:
  "\<not> confirmed None (Some ''No, cancel that'') \<and> denied None (Some ''No, cancel that'')
   \<and> confirm_task utc_host None (Some ''No, cancel that'') True
        \<lparr>pendingTask = Some (JObj [(str ''task'', JStr (str ''Buy milk''))]), sheet = []\<rparr>
      = ([Say [Lit ''No problem. Let's try again.''],
          Redirect ''https://tasks.example/voice/inbound-speech''],
         \<lparr>pendingTask = None, sheet = []\<rparr>)"
proof -
  have c: "\<not> confirmed None (Some ''No, cancel that'')" by code_simp
  have d: "denied None (Some ''No, cancel that'')" by code_simp
  have u: "BASE_URL utc_host = ''https://tasks.example''" by (simp add: utc_host_def)
  show ?thesis
    using c d reject_clears_draft[OF c d, of utc_host True
        "\<lparr>pendingTask = Some (JObj [(str ''task'', JStr (str ''Buy milk''))]), sheet = []\<rparr>"]
    by (simp add: u)
qed

text \<open>
  C10 says that an accept signal with an empty slot ends the call. A turn can carry
  both signals: \<open>yes, I know\<close> contains \<open>yes\<close> and, in \<open>know\<close>, \<open>no\<close>. With
  the slot empty the accept branch is not taken, the reject branch is, and the response
  redirects to the capture prompt instead of hanging up.
\<close>

theorem accept_and_reject_redirects_counterexample:
  "confirmed None (Some ''yes, I know'')
   \<and> confirm_task utc_host None (Some ''yes, I know'') True \<lparr>pendingTask = None, sheet = []\<rparr>
      = ([Say [Lit ''No problem. Let's try again.''],
          Redirect ''https://tasks.example/voice/inbound-speech''],
         \<lparr>pendingTask = None, sheet = []\<rparr>)"
  by code_simp

text \<open>
  C10, amended. If a confirmation turn arrives without a reject signal (an accept
  signal alone, or neither signal) while the pending slot is empty, the handler appends
  no row, leaves the slot empty and answers with a hangup alone.
\<close>

theorem empty_slot_hangup:
  assumes "pendingTask w = None" and "\<not> denied Digits SpeechResult"
  shows "confirm_task h Digits SpeechResult ok w = ([Hangup], \<lparr>pendingTask = None, sheet = sheet w\<rparr>)"
  using assms by (simp add: confirm_task_def pending_def split: bool.splits)

text \<open>C10, the amended statement at the digit 1 with an empty slot.\<close>

theorem empty_slot_hangup_witness:
  "confirmed (Some ''1'') None \<and> \<not> denied (Some ''1'') None
   \<and> confirm_task utc_host (Some ''1'') None True \<lparr>pendingTask = None, sheet = []\<rparr>
      = ([Hangup], \<lparr>pendingTask = None, sheet = []\<rparr>)"
proof -
  have c: "confirmed (Some ''1'') None" by code_simp
  have d: "\<not> denied (Some ''1'') None" by code_simp
  have e: "pendingTask \<lparr>pendingTask = None, sheet = []\<rparr> = None" by simp
  show ?thesis using c d empty_slot_hangup[OF e d, of utc_host True] by simp
qed


section \<open>The morning call: claim C9\<close>

text \<open>
  C9. When no task is upcoming, \<open>makeMorningCall\<close> returns without asking for a
  call, and the briefing answers (\<open>Inr\<close>: the handler does not throw) with the fixed
  sentence about no tasks and hangs up.
\<close>

theorem no_tasks_no_call:
  assumes "getUpcomingTasks h now now' (Some 5) response = []"
  shows "makeMorningCall h now now' response = None
       \<and> morning_briefing h now now' response
           = Inr [Say [Lit ''Good morning Jason! You have no tasks due in the next 5 days. Have a great day!''],
                  Hangup]"
  using assms by (simp add: makeMorningCall_def morning_briefing_def)

text \<open>C9 at a sheet whose only task is done.\<close>

theorem no_tasks_no_call_witness:
  "getUpcomingTasks utc_host 1739000000000 1739000000000 (Some 5)
       (Some [[''Review PRs'', ''Medium'', ''Done'', ''2025-02-09'']]) = []
   \<and> makeMorningCall utc_host 1739000000000 1739000000000
       (Some [[''Review PRs'', ''Medium'', ''Done'', ''2025-02-09'']]) = None
   \<and> morning_briefing utc_host 1739000000000 1739000000000
       (Some [[''Review PRs'', ''Medium'', ''Done'', ''2025-02-09'']])
      = Inr [Say [Lit ''Good morning Jason! You have no tasks due in the next 5 days. Have a great day!''],
             Hangup]"
proof -
  have e: "getUpcomingTasks utc_host 1739000000000 1739000000000 (Some 5)
       (Some [[''Review PRs'', ''Medium'', ''Done'', ''2025-02-09'']]) = []"
    by code_simp
  show ?thesis using e no_tasks_no_call[OF e] by blast
qed

end
